theory Spec2Isabelle
  imports Complex_Main "HOL-Library.Word"
begin

section \<open>Value cells and the quoting subsystem (sys-rebval.h, sys-quoted.h)\<close>

text \<open>
  A cell has a header, an extra slot and a two-slot payload.  The header is kept as the
  kind byte plus the set of the flag bits that sys-rebval.h names.  The extra slot and the
  first payload slot are pointer-sized and kept as uninterpreted machine values (\<open>0\<close> is
  the null pointer); the second payload slot holds the \<open>REBCNT depth\<close> of a quoted payload,
  an unsigned 32-bit count.
\<close>

datatype cell_flag =
    NODE_FLAG_NODE | NODE_FLAG_FREE | NODE_FLAG_CELL | NODE_FLAG_MANAGED | NODE_FLAG_ROOT
  | NODE_FLAG_TRANSIENT | NODE_FLAG_STACK | NODE_FLAG_MARKED
  | CELL_FLAG_PROTECTED | CELL_FLAG_FALSEY | CELL_FLAG_NEWLINE_BEFORE
  | CELL_FLAG_UNEVALUATED | CELL_FLAG_ENFIXED | CELL_FLAG_EVAL_FLIP | CELL_FLAG_CONST
  | CELL_FLAG_EXPLICITLY_MUTABLE

definition CELL_MASK_PERSIST :: "cell_flag set" where
  "CELL_MASK_PERSIST =
     {NODE_FLAG_NODE, NODE_FLAG_CELL, NODE_FLAG_MANAGED, NODE_FLAG_ROOT,
      NODE_FLAG_TRANSIENT, NODE_FLAG_STACK}"

definition CELL_MASK_COPY :: "cell_flag set" where
  "CELL_MASK_COPY =
     - (CELL_MASK_PERSIST \<union> {NODE_FLAG_MARKED, CELL_FLAG_PROTECTED, CELL_FLAG_ENFIXED,
                              CELL_FLAG_UNEVALUATED, CELL_FLAG_EVAL_FLIP})"

record payload =
  slot1 :: nat
  slot2 :: "32 word"

record cell =
  flags :: "cell_flag set"
  kind_byte :: "8 word"
  extra :: nat
  payload :: payload

text \<open>
  The kind enumeration and \<open>Is_Bindable\<close> come from generated headers: the numeric value of
  \<open>REB_QUOTED\<close> and the test for bindable kinds are parameters of the build, as is whether
  assertions and debug-only statements are compiled in (\<open>NDEBUG\<close>).
\<close>

record build =
  REB_QUOTED :: "8 word"
  Is_Bindable :: "8 word \<Rightarrow> bool"
  NDEBUG :: bool

definition REB_64 :: "8 word" where
  \<comment> \<open>Modelled from the spec: the kind enumeration is not among the source files; the
      tag is "base_kind + 64 * depth".\<close>
  "REB_64 = 64"

text \<open>
  Singular arrays live in a heap addressed by node identity; \<open>next_node\<close> is the next
  identity the allocator hands out.
\<close>

record heap =
  singulars :: "nat \<Rightarrow> cell"
  next_node :: nat

definition Alloc_Singular :: "heap \<Rightarrow> nat \<times> heap" where
  \<comment> \<open>Modelled from the spec: Alloc_Singular is not among the source files; it
      "allocates a new one-cell side array".\<close>
  "Alloc_Singular h = (next_node h, h\<lparr>next_node := Suc (next_node h)\<rparr>)"

definition Move_Value_Header :: "cell \<Rightarrow> cell \<Rightarrow> cell" where
  \<comment> \<open>Modelled from the spec: Move_Value_Header is not among the source files; a move
      "copies header (masked to the copyable bit set)" and "dest's own lifetime/ownership
      bits are preserved".  The kind byte is part of the copied bits.\<close>
  "Move_Value_Header out v =
     out\<lparr>flags := (flags out \<inter> CELL_MASK_PERSIST) \<union> (flags v \<inter> CELL_MASK_COPY),
         kind_byte := kind_byte v\<rparr>"

definition RESET_VAL_HEADER :: "cell \<Rightarrow> 8 word \<Rightarrow> cell_flag set \<Rightarrow> cell" where
  \<comment> \<open>Modelled from the spec: RESET_VAL_HEADER is not among the source files; a reset
      "overwrite[s] the header with a fresh kind and explicit flags", the persistent bits
      of the cell staying as they are.\<close>
  "RESET_VAL_HEADER v k fs =
     v\<lparr>flags := (flags v \<inter> CELL_MASK_PERSIST) \<union> fs, kind_byte := k\<rparr>"

definition VAL_QUOTED_DEPTH :: "cell \<Rightarrow> 32 word" where
  "VAL_QUOTED_DEPTH v =
     (if kind_byte v \<ge> REB_64 then ucast (kind_byte v div REB_64)
      else slot2 (payload v))"

definition Quotify_Core :: "build \<Rightarrow> heap \<Rightarrow> cell \<Rightarrow> 32 word \<Rightarrow> heap \<times> cell" where
  "Quotify_Core b h v depth =
     (if kind_byte v = REB_QUOTED b then
        (h, v\<lparr>payload := (payload v)\<lparr>slot2 := slot2 (payload v) + depth\<rparr>\<rparr>)
      else
        let kind = kind_byte v mod REB_64;
            depth = depth + ucast (kind_byte v div REB_64)
        in if depth \<le> 3 then
             (h, v\<lparr>kind_byte := kind + REB_64 * ucast depth\<rparr>)
           else
             let (a, h) = Alloc_Singular h;
                 cell = singulars h a;
                 cell = Move_Value_Header cell v;
                 cell = cell\<lparr>kind_byte := kind\<rparr>;
                 cell = cell\<lparr>extra := extra v\<rparr>;
                 cell = cell\<lparr>payload := payload v\<rparr>;
                 cell = (if NDEBUG b then cell
                         else cell\<lparr>flags := insert CELL_FLAG_PROTECTED (flags cell)\<rparr>);
                 v = RESET_VAL_HEADER v (REB_QUOTED b) {};
                 v = (if Is_Bindable b (kind_byte cell) then v\<lparr>extra := extra cell\<rparr>
                      else v\<lparr>extra := 0\<rparr>);
                 v = v\<lparr>payload := \<lparr>slot1 = a, slot2 = depth\<rparr>\<rparr>
             in (h\<lparr>singulars := (singulars h)(a := cell)\<rparr>, v))"

definition Unquotify_In_Situ :: "cell \<Rightarrow> 32 word \<Rightarrow> cell" where
  "Unquotify_In_Situ v unquotes = v\<lparr>kind_byte := kind_byte v - REB_64 * ucast unquotes\<rparr>"

definition Unquotify_Core :: "build \<Rightarrow> heap \<Rightarrow> cell \<Rightarrow> 32 word \<Rightarrow> cell" where
  "Unquotify_Core b h v unquotes =
     (if unquotes = 0 then v
      else if kind_byte v \<noteq> REB_QUOTED b then Unquotify_In_Situ v unquotes
      else
        let depth = slot2 (payload v) - unquotes;
            cell = singulars h (slot1 (payload v))
        in if depth > 3 then v\<lparr>payload := (payload v)\<lparr>slot2 := depth\<rparr>\<rparr>
           else
             let v = Move_Value_Header v cell;
                 v = v\<lparr>kind_byte := kind_byte v + REB_64 * ucast depth\<rparr>;
                 v = v\<lparr>payload := payload cell\<rparr>
             in v)"

definition VAL_UNESCAPED :: "build \<Rightarrow> heap \<Rightarrow> cell \<Rightarrow> cell" where
  "VAL_UNESCAPED b h v =
     (if kind_byte v \<noteq> REB_QUOTED b then v else singulars h (slot1 (payload v)))"

definition Dequotify :: "build \<Rightarrow> heap \<Rightarrow> cell \<Rightarrow> 32 word \<times> cell" where
  "Dequotify b h v =
     (if kind_byte v \<noteq> REB_QUOTED b then
        (ucast (kind_byte v div REB_64), v\<lparr>kind_byte := kind_byte v mod REB_64\<rparr>)
      else
        let depth = slot2 (payload v);
            cell = singulars h (slot1 (payload v));
            v = Move_Value_Header v cell;
            v = v\<lparr>extra := extra cell\<rparr>;
            v = v\<lparr>payload := payload cell\<rparr>
        in (depth, v))"

text \<open>
  The invariant the assertions of sys-quoted.h state: a cell of kind \<open>REB_QUOTED\<close> holds a
  depth above 3, and the kind of an in-tag cell, once normalised, is not \<open>REB_QUOTED\<close>.
\<close>

definition quoting_invariant :: "build \<Rightarrow> cell \<Rightarrow> bool" where
  "quoting_invariant b v =
     (if kind_byte v = REB_QUOTED b then 3 < slot2 (payload v)
      else kind_byte v mod REB_64 \<noteq> REB_QUOTED b)"

text \<open>
  A sample build and sample cells for evaluating the definitions: kind 3 stands for
  \<open>REB_QUOTED\<close>, kinds below 32 are the bindable ones, kind 40 is a non-bindable kind
  that keeps data in its extra slot (as DATE! does).
\<close>

definition sample_build :: build where
  "sample_build = \<lparr>REB_QUOTED = 3, Is_Bindable = (\<lambda>k. k < 32), NDEBUG = True\<rparr>"

definition trash_cell :: cell where
  "trash_cell = \<lparr>flags = {NODE_FLAG_NODE, NODE_FLAG_CELL}, kind_byte = 0, extra = 0,
                 payload = \<lparr>slot1 = 0, slot2 = 0\<rparr>\<rparr>"

definition sample_heap :: heap where
  "sample_heap = \<lparr>singulars = (\<lambda>a. trash_cell), next_node = 1\<rparr>"

definition date_cell :: cell where
  "date_cell = \<lparr>flags = {NODE_FLAG_NODE, NODE_FLAG_CELL}, kind_byte = 40, extra = 2019,
                payload = \<lparr>slot1 = 7, slot2 = 9\<rparr>\<rparr>"

definition deep_cell :: cell where
  "deep_cell = \<lparr>flags = {NODE_FLAG_NODE, NODE_FLAG_CELL}, kind_byte = 3, extra = 0,
                payload = \<lparr>slot1 = 1, slot2 = 5\<rparr>\<rparr>"

section \<open>Contexts: equality, copy and append (t-object.c)\<close>

text \<open>
  A context value is a cell that carries its kind and a reference to the varlist; the
  varlist and the keylist are parallel arrays (slot \<open>i\<close> of the keylist names slot \<open>i\<close>
  of the varlist).  A key has a spelling, its canon (the case-insensitive representative,
  compared by identity in the code) and may be hidden; a variable is a value cell that may
  be protected.  Contexts live in a heap addressed by the varlist reference, so that two
  cells can share one context.
\<close>

datatype reb_kind = REB_OBJECT | REB_MODULE | REB_ERROR | REB_FRAME | REB_PORT

record symbol =
  spelling :: string
  canon :: string

record ctx_cell =
  cell_kind :: reb_kind
  cell_varlist :: nat

datatype rebval =
    Nulled
  | Blank
  | Integer int
  | Word symbol
  | Set_Word symbol
  | Get_Word symbol
  | Block "rebval list"
  | Any_Context ctx_cell
  | Other_Value nat

record key =
  key_symbol :: symbol
  key_hidden :: bool

record var =
  var_value :: rebval
  var_protected :: bool




definition Is_Param_Hidden :: "key \<Rightarrow> bool" where
  "Is_Param_Hidden k = key_hidden k"




text \<open>One of the two closing loops: every remaining key must be hidden.\<close>

fun rest_all_hidden :: "(key \<times> var) list \<Rightarrow> bool" where
  "rest_all_hidden [] = True"
| "rest_all_hidden ((key, var) # rest) =
     (if \<not> Is_Param_Hidden key then False else rest_all_hidden rest)"

definition Equal_Context_tail :: "(key \<times> var) list \<Rightarrow> (key \<times> var) list \<Rightarrow> bool" where
  "Equal_Context_tail p1 p2 =
     (if \<not> rest_all_hidden p1 then False
      else if \<not> rest_all_hidden p2 then False
      else True)"




text \<open>
  The reading of the loop that the specification gives: the visible slots of both sides,
  compared pairwise by canon and by \<open>Cmp_Value\<close>, none left over.
\<close>

definition visible_slots :: "(key \<times> var) list \<Rightarrow> (key \<times> var) list" where
  "visible_slots p = filter (\<lambda>(key, var). \<not> Is_Param_Hidden key) p"













subsection \<open>Append_To_Context and the APPEND case of the context dispatcher\<close>

















section \<open>GOB coordinate mapping (reb-gob.h, mod-gob.c)\<close>

text \<open>
  A GOB is an array node with a pane (none for a BLANK! pane cell, otherwise the list of
  child GOBs), an offset, a size, flags and a parent link.  GOBs refer to each other by
  node identity, and nothing keeps the graph acyclic, so they are kept in a store.  The
  coordinates are \<open>REBD32\<close> in the code; the definitions use only \<open>+\<close>, \<open>-\<close>, \<open>0\<close> and the
  order of the coordinate type and assume nothing about them.  \<open>REBD32\<close> itself, with its
  rounding, follows the events.
\<close>

datatype gob_flag =
    GOBS_OPEN | GOBS_ACTIVE | GOBS_NEW | GOBF_TOP | GOBF_WINDOW | GOBF_OPAQUE | GOBF_STATIC
  | GOBF_HIDDEN | GOBF_RESIZE | GOBF_NO_TITLE | GOBF_NO_BORDER | GOBF_DROPABLE
  | GOBF_TRANSPARENT | GOBF_POPUP | GOBF_MODAL | GOBF_ON_TOP | GOBF_ACTIVE | GOBF_MINIMIZE
  | GOBF_MAXIMIZE | GOBF_RESTORE | GOBF_FULLSCREEN

record 'a gob =
  GOB_PANE :: "nat list option"
  GOB_X :: 'a
  GOB_Y :: 'a
  GOB_W :: 'a
  GOB_H :: 'a
  GOB_FLAGS :: "gob_flag set"
  GOB_PARENT :: "nat option"

type_synonym 'a gob_store = "nat \<Rightarrow> 'a gob"

text \<open>
  The inner \<open>for\<close> loop of \<open>Map_Gob_Inner\<close>: \<open>item\<close> starts at the last child and steps
  back, so the function is applied to the pane in reverse; it gives the child the loop
  breaks at, or nothing when \<open>n\<close> reaches \<open>len\<close>.
\<close>

fun scan_pane ::
  "('a :: {plus, ord}) gob_store \<Rightarrow> nat list \<Rightarrow> 'a \<Rightarrow> 'a \<Rightarrow> 'a \<Rightarrow> 'a \<Rightarrow> nat option"
where
  "scan_pane st [] x y xo yo = None"
| "scan_pane st (child # items) x y xo yo =
     (if xo \<ge> x + GOB_X (st child)
         \<and> xo < x + GOB_X (st child) + GOB_W (st child)
         \<and> yo \<ge> y + GOB_Y (st child)
         \<and> yo < y + GOB_Y (st child) + GOB_H (st child)
      then Some child
      else scan_pane st items x y xo yo)"

text \<open>
  The \<open>while\<close> loop, with \<open>max_depth\<close> the number of iterations the guard still allows:
  at 0 the loop is left whatever the pane is.
\<close>

fun Map_Gob_Inner_loop ::
  "('a :: {plus, ord}) gob_store \<Rightarrow> nat \<Rightarrow> nat \<Rightarrow> 'a \<Rightarrow> 'a \<Rightarrow> 'a \<Rightarrow> 'a \<Rightarrow> nat \<times> 'a \<times> 'a"
where
  "Map_Gob_Inner_loop st 0 gob x y xo yo = (gob, x, y)"
| "Map_Gob_Inner_loop st (Suc max_depth) gob x y xo yo =
     (case GOB_PANE (st gob) of
        None \<Rightarrow> (gob, x, y)
      | Some pane \<Rightarrow>
          (case scan_pane st (rev pane) x y xo yo of
             None \<Rightarrow> (gob, x, y)
           | Some child \<Rightarrow>
               Map_Gob_Inner_loop st max_depth child
                 (x + GOB_X (st child)) (y + GOB_Y (st child)) xo yo))"

definition Map_Gob_Inner ::
  "('a :: {plus, minus, zero, ord}) gob_store \<Rightarrow> nat \<Rightarrow> 'a \<Rightarrow> 'a \<Rightarrow> nat \<times> 'a \<times> 'a"
where
  "Map_Gob_Inner st gob xo yo =
     (case Map_Gob_Inner_loop st 1000 gob 0 0 xo yo of
        (gob, x, y) \<Rightarrow> (gob, xo - x, yo - y))"

text \<open>The \<open>/reverse\<close> loop of \<open>map-gob-offset\<close>, walking up the parent links.\<close>

fun map_gob_offset_reverse ::
  "('a :: plus) gob_store \<Rightarrow> nat \<Rightarrow> nat \<Rightarrow> 'a \<Rightarrow> 'a \<Rightarrow> nat \<times> 'a \<times> 'a"
where
  "map_gob_offset_reverse st 0 gob xo yo = (gob, xo, yo)"
| "map_gob_offset_reverse st (Suc max_depth) gob xo yo =
     (case GOB_PARENT (st gob) of
        None \<Rightarrow> (gob, xo, yo)
      | Some parent \<Rightarrow>
          if GOBF_WINDOW \<in> GOB_FLAGS (st gob) then (gob, xo, yo)
          else map_gob_offset_reverse st max_depth parent
                 (xo + GOB_X (st gob)) (yo + GOB_Y (st gob)))"

definition map_gob_offset ::
  "('a :: {plus, minus, zero, ord}) gob_store \<Rightarrow> nat \<Rightarrow> 'a \<times> 'a \<Rightarrow> bool \<Rightarrow> nat \<times> 'a \<times> 'a"
where
  "map_gob_offset st gob xy reverse =
     (if reverse then map_gob_offset_reverse st 1000 gob (fst xy) (snd xy)
      else Map_Gob_Inner st gob (fst xy) (snd xy))"

text \<open>
  The hit-testing algorithm in the words of the specification: the point is kept in the
  local coordinates of the current node; the children are tried last first; the first
  whose box contains the point is entered, with its offset subtracted from the point.
\<close>

definition in_bounding_box :: "('a :: {plus, ord}) gob \<Rightarrow> 'a \<times> 'a \<Rightarrow> bool" where
  "in_bounding_box g p =
     (GOB_X g \<le> fst p \<and> fst p < GOB_X g + GOB_W g
      \<and> GOB_Y g \<le> snd p \<and> snd p < GOB_Y g + GOB_H g)"

fun hit_test ::
  "('a :: {plus, minus, ord}) gob_store \<Rightarrow> nat \<Rightarrow> nat \<Rightarrow> 'a \<times> 'a \<Rightarrow> nat \<times> 'a \<times> 'a"
where
  "hit_test st 0 gob p = (gob, fst p, snd p)"
| "hit_test st (Suc steps) gob p =
     (case GOB_PANE (st gob) of
        None \<Rightarrow> (gob, fst p, snd p)
      | Some pane \<Rightarrow>
          (case find (\<lambda>child. in_bounding_box (st child) p) (rev pane) of
             None \<Rightarrow> (gob, fst p, snd p)
           | Some child \<Rightarrow>
               hit_test st steps child
                 (fst p - GOB_X (st child), snd p - GOB_Y (st child))))"

text \<open>
  The same algorithm with the offsets kept the way \<open>Map_Gob_Inner\<close> keeps them: the point
  stays as it was given, the offsets of the nodes entered are summed up in \<open>acc\<close>, a child
  is entered when the point lies in its box moved by \<open>acc\<close>, and the sum is subtracted from
  the point once, at the end.
\<close>

definition in_bounding_box_at ::
  "('a :: {plus, ord}) gob \<Rightarrow> 'a \<times> 'a \<Rightarrow> 'a \<times> 'a \<Rightarrow> bool"
where
  "in_bounding_box_at g acc p =
     (fst acc + GOB_X g \<le> fst p \<and> fst p < fst acc + GOB_X g + GOB_W g
      \<and> snd acc + GOB_Y g \<le> snd p \<and> snd p < snd acc + GOB_Y g + GOB_H g)"

fun hit_test_accumulated ::
  "('a :: {plus, minus, ord}) gob_store \<Rightarrow> nat \<Rightarrow> nat \<Rightarrow> 'a \<times> 'a \<Rightarrow> 'a \<times> 'a
     \<Rightarrow> nat \<times> 'a \<times> 'a"
where
  "hit_test_accumulated st 0 gob acc p = (gob, fst p - fst acc, snd p - snd acc)"
| "hit_test_accumulated st (Suc steps) gob acc p =
     (case GOB_PANE (st gob) of
        None \<Rightarrow> (gob, fst p - fst acc, snd p - snd acc)
      | Some pane \<Rightarrow>
          (case find (\<lambda>child. in_bounding_box_at (st child) acc p) (rev pane) of
             None \<Rightarrow> (gob, fst p - fst acc, snd p - snd acc)
           | Some child \<Rightarrow>
               hit_test_accumulated st steps child
                 (fst acc + GOB_X (st child), snd acc + GOB_Y (st child)) p))"

text \<open>
  Events (reb-event.h is not among the source files): an event carries a reference to a
  GOB or none, flags, of which \<open>EVF_HAS_XY\<close> says that a position is present, and the
  position.
\<close>

datatype event_flag = EVF_HAS_XY | EVF_OTHER nat




text \<open>
  Sample scenes over integer coordinates: a parent (node 1) with two children of size
  100 by 100 at (0, 0) and (200, 50) (nodes 2 and 3), and a node (7) whose pane holds
  itself and whose box holds every point that stays at (5, 5).
\<close>

definition leaf_gob :: "int \<Rightarrow> int \<Rightarrow> int \<Rightarrow> int \<Rightarrow> nat option \<Rightarrow> int gob" where
  "leaf_gob x y w h parent =
     \<lparr>GOB_PANE = None, GOB_X = x, GOB_Y = y, GOB_W = w, GOB_H = h, GOB_FLAGS = {},
      GOB_PARENT = parent\<rparr>"

definition sample_scene :: "int gob_store" where
  "sample_scene =
     (\<lambda>g. leaf_gob 0 0 0 0 None)
       (1 := (leaf_gob 0 0 400 300 None)\<lparr>GOB_PANE := Some [2, 3]\<rparr>,
        2 := leaf_gob 0 0 100 100 (Some 1),
        3 := leaf_gob 200 50 100 100 (Some 1),
        7 := (leaf_gob 0 0 10 10 (Some 7))\<lparr>GOB_PANE := Some [7]\<rparr>)"


subsection \<open>REBD32 coordinates\<close>

text \<open>
  \<open>REBD32\<close> is taken as the IEEE 754 binary32 format: a finite value is a rational
  (\<open>Dec\<close>), beside the two infinities and NaN; the two zeros are one value, as \<open>+\<close>, \<open>-\<close>
  and the comparisons, the only operations that the GOB code applies, do not tell them
  apart.  Every sum and difference is rounded to the nearest value of the format, a tie
  going to the even significand, as a C compiler evaluating \<open>float\<close> expressions in
  \<open>float\<close> does.
\<close>

datatype REBD32 = Dec rat | Inf_pos | Inf_neg | NaN

text \<open>Rounding to the nearest integer, a tie going to the even one.\<close>

definition round_half_even :: "rat \<Rightarrow> int" where
  "round_half_even q =
     (let f = \<lfloor>q\<rfloor>; d = q - of_int f
      in if d < 1 / 2 then f
         else if 1 / 2 < d then f + 1
         else if even f then f else f + 1)"

text \<open>
  The unit in the last place of the binade of \<open>q\<close>: the least \<open>u\<close> among \<open>1 / 2 ^ 149\<close>,
  \<open>1 / 2 ^ 148\<close>, ... with \<open>\<bar>q\<bar> < 2 ^ 24 * u\<close>, so that \<open>q / u\<close> has at most 24 binary
  digits before the point.  The search starts at the spacing of the subnormal values and
  gives \<open>2 ^ 105\<close> beyond the largest binade.
\<close>

fun ulp_search :: "rat \<Rightarrow> nat \<Rightarrow> rat \<Rightarrow> rat" where
  "ulp_search q 0 u = u"
| "ulp_search q (Suc n) u = (if \<bar>q\<bar> < 16777216 * u then u else ulp_search q n (2 * u))"

definition ulp :: "rat \<Rightarrow> rat" where
  "ulp q = ulp_search q 254 (1 / 2 ^ 149)"

text \<open>
  The value of the format nearest to \<open>q\<close>; a result of magnitude \<open>2 ^ 128\<close> or more is
  an infinity.
\<close>

definition round_REBD32 :: "rat \<Rightarrow> REBD32" where
  \<comment> \<open>Modelled from the spec: the declaration of \<open>REBD32\<close> is not among the source files;
      reb-gob.h calls it the "32-bit floating point type, typically just float" and the
      specification speaks of a "two-float cell".\<close>
  "round_REBD32 q =
     (let u = ulp q;
          r = of_int (round_half_even (q / u)) * u
      in if 2 ^ 128 \<le> \<bar>r\<bar> then (if 0 < q then Inf_pos else Inf_neg) else Dec r)"

fun negate :: "REBD32 \<Rightarrow> REBD32" where
  "negate (Dec a) = Dec (- a)"
| "negate Inf_pos = Inf_neg"
| "negate Inf_neg = Inf_pos"
| "negate NaN = NaN"

text \<open>
  Addition, subtraction and the comparisons of C on \<open>float\<close>: NaN propagates and compares
  false with everything, the sum of the two infinities is NaN.
\<close>

instantiation REBD32 :: "{zero, plus, minus, ord}"
begin

definition zero_REBD32 :: REBD32 where
  "zero_REBD32 = Dec 0"

fun plus_REBD32 :: "REBD32 \<Rightarrow> REBD32 \<Rightarrow> REBD32" where
  "plus_REBD32 (Dec a) (Dec b) = round_REBD32 (a + b)"
| "plus_REBD32 NaN b = NaN"
| "plus_REBD32 a NaN = NaN"
| "plus_REBD32 Inf_pos Inf_neg = NaN"
| "plus_REBD32 Inf_neg Inf_pos = NaN"
| "plus_REBD32 Inf_pos b = Inf_pos"
| "plus_REBD32 Inf_neg b = Inf_neg"
| "plus_REBD32 a Inf_pos = Inf_pos"
| "plus_REBD32 a Inf_neg = Inf_neg"

definition minus_REBD32 :: "REBD32 \<Rightarrow> REBD32 \<Rightarrow> REBD32" where
  "minus_REBD32 a b = a + negate b"

fun less_eq_REBD32 :: "REBD32 \<Rightarrow> REBD32 \<Rightarrow> bool" where
  "less_eq_REBD32 (Dec a) (Dec b) = (a \<le> b)"
| "less_eq_REBD32 NaN b = False"
| "less_eq_REBD32 a NaN = False"
| "less_eq_REBD32 Inf_neg b = True"
| "less_eq_REBD32 a Inf_pos = True"
| "less_eq_REBD32 a b = False"

fun less_REBD32 :: "REBD32 \<Rightarrow> REBD32 \<Rightarrow> bool" where
  "less_REBD32 (Dec a) (Dec b) = (a < b)"
| "less_REBD32 NaN b = False"
| "less_REBD32 a NaN = False"
| "less_REBD32 Inf_neg Inf_neg = False"
| "less_REBD32 Inf_pos Inf_pos = False"
| "less_REBD32 Inf_neg b = True"
| "less_REBD32 a Inf_pos = True"
| "less_REBD32 a b = False"

instance ..

end

text \<open>
  Pixel coordinates: a \<open>REBD32\<close> whose value is an integer of magnitude at most 16384.
  Sums of up to 1002 such values stay below \<open>2 ^ 24\<close> and are exact.
\<close>

definition pixel :: "REBD32 \<Rightarrow> bool" where
  "pixel v = (case v of Dec q \<Rightarrow> of_int \<lfloor>q\<rfloor> = q \<and> \<bar>q\<bar> \<le> 16384 | _ \<Rightarrow> False)"

definition pixel_gob :: "REBD32 gob \<Rightarrow> bool" where
  "pixel_gob g =
     (pixel (GOB_X g) \<and> pixel (GOB_Y g) \<and> pixel (GOB_W g) \<and> pixel (GOB_H g))"

text \<open>The integer read from a pixel coordinate and back, on coordinates and on GOBs.\<close>

definition dec_of_int :: "int \<Rightarrow> REBD32" where
  "dec_of_int n = Dec (of_int n)"

definition int_of_dec :: "REBD32 \<Rightarrow> int" where
  "int_of_dec v = (case v of Dec q \<Rightarrow> \<lfloor>q\<rfloor> | _ \<Rightarrow> 0)"

definition dec_gob :: "int gob \<Rightarrow> REBD32 gob" where
  "dec_gob g =
     \<lparr>GOB_PANE = GOB_PANE g, GOB_X = dec_of_int (GOB_X g), GOB_Y = dec_of_int (GOB_Y g),
      GOB_W = dec_of_int (GOB_W g), GOB_H = dec_of_int (GOB_H g), GOB_FLAGS = GOB_FLAGS g,
      GOB_PARENT = GOB_PARENT g\<rparr>"

definition int_gob :: "REBD32 gob \<Rightarrow> int gob" where
  "int_gob g =
     \<lparr>GOB_PANE = GOB_PANE g, GOB_X = int_of_dec (GOB_X g), GOB_Y = int_of_dec (GOB_Y g),
      GOB_W = int_of_dec (GOB_W g), GOB_H = int_of_dec (GOB_H g), GOB_FLAGS = GOB_FLAGS g,
      GOB_PARENT = GOB_PARENT g\<rparr>"

text \<open>
  Sample scenes over \<open>REBD32\<close>: the integer scene above with its coordinates as \<open>REBD32\<close>
  values, and a scene with two chains.  In the first chain node 13, at x = 16777216, holds
  node 14 at x = 1; in the second node 22, at x = 2, holds node 23 at the \<open>REBD32\<close> nearest
  to 0.1, which is 13421773 / 134217728.
\<close>

definition pixel_scene :: "REBD32 gob_store" where
  "pixel_scene = (\<lambda>g. dec_gob (sample_scene g))"

definition float_gob ::
  "rat \<Rightarrow> rat \<Rightarrow> rat \<Rightarrow> rat \<Rightarrow> nat list option \<Rightarrow> REBD32 gob" where
  "float_gob x y w h pane =
     \<lparr>GOB_PANE = pane, GOB_X = Dec x, GOB_Y = Dec y, GOB_W = Dec w, GOB_H = Dec h,
      GOB_FLAGS = {}, GOB_PARENT = None\<rparr>"

definition rounding_scene :: "REBD32 gob_store" where
  "rounding_scene =
     (\<lambda>g. float_gob 0 0 0 0 None)
       (12 := float_gob 0 0 0 0 (Some [13]),
        13 := float_gob 16777216 0 100 100 (Some [14]),
        14 := float_gob 1 0 10 100 None,
        21 := float_gob 0 0 0 0 (Some [22]),
        22 := float_gob 2 0 10 100 (Some [23]),
        23 := float_gob (13421773 / 134217728) 0 1 100 None)"

section \<open>Cryptography natives (mod-crypt.c)\<close>

type_synonym bytes = "8 word list"

datatype crypt_error =
    Error_Invalid_Arg string
  | Error_Bad_Refines
  | Error_IV_Too_Short
  | Error_AES_Key_Length int
  | Error_Not_AES_Context

subsection \<open>checksum\<close>

text \<open>
  The hash routines come from zlib, the digest sources and the core, none of them among
  the source files; they are parameters.  The streaming interface of a digest (init,
  update, update, final) is taken as the digest of the concatenated updates.
\<close>

datatype sym = SYM_0 | SYM_SHA1 | SYM_MD5 | SYM_CRC32 | SYM_ADLER32 | SYM_OTHER nat

record hash_lib =
  crc32_z :: "bytes \<Rightarrow> 32 word"
  z_adler32 :: "bytes \<Rightarrow> nat"
  SHA1 :: "bytes \<Rightarrow> bytes"
  MD5 :: "bytes \<Rightarrow> bytes"
  Compute_IPC :: "bytes \<Rightarrow> int"
  Hash_Bytes :: "bytes \<Rightarrow> int"
  Compute_CRC24 :: "bytes \<Rightarrow> int"

record digest_entry =
  digest :: "bytes \<Rightarrow> bytes"
  digest_sym :: sym
  digest_len :: nat
  hmacblock :: nat

definition digests :: "hash_lib \<Rightarrow> digest_entry list" where
  "digests lib =
     [\<lparr>digest = SHA1 lib, digest_sym = SYM_SHA1, digest_len = 20, hmacblock = 64\<rparr>,
      \<lparr>digest = MD5 lib, digest_sym = SYM_MD5, digest_len = 16, hmacblock = 64\<rparr>,
      \<lparr>digest = (\<lambda>d. []), digest_sym = SYM_0, digest_len = 0, hmacblock = 0\<rparr>]"

text \<open>
  The refinements of a call.  \<open>ref_hash\<close> holds the \<open>REBINT\<close> that \<open>VAL_INT32\<close> reads;
  the data passed to \<open>checksum\<close> is the region that \<open>Part_Len_May_Modify_Index\<close> selects
  (all of the binary from its index when \<open>/part\<close> is not used).
\<close>

record checksum_refs =
  ref_tcp :: bool
  ref_secure :: bool
  ref_hash :: "int option"
  ref_method :: "sym option"
  ref_key :: "bytes option"

datatype crypt_value = Integer_Value int | Binary_Value bytes

definition SAME_SYM_NONZERO :: "sym \<Rightarrow> sym \<Rightarrow> bool" where
  "SAME_SYM_NONZERO a b = (a = b)"

text \<open>C's \<open>%\<close> on \<open>REBINT\<close>: the remainder has the sign of the dividend.\<close>

definition c_rem :: "int \<Rightarrow> int \<Rightarrow> int" where
  "c_rem a b = sgn a * (\<bar>a\<bar> mod \<bar>b\<bar>)"

definition hmac_pad :: "8 word \<Rightarrow> nat \<Rightarrow> bytes \<Rightarrow> bytes" where
  "hmac_pad c blocklen key_bytes =
     map (\<lambda>b. xor b c) (take blocklen (key_bytes @ replicate (blocklen - length key_bytes) 0))"

definition hmac :: "digest_entry \<Rightarrow> bytes \<Rightarrow> bytes \<Rightarrow> bytes" where
  "hmac e key data =
     (let blocklen = hmacblock e;
          key_bytes = (if length key > blocklen then take (digest_len e) (digest e key)
                       else key);
          ipad = hmac_pad 0x36 blocklen key_bytes;
          opad = hmac_pad 0x5c blocklen key_bytes;
          tmpdigest = take (digest_len e) (digest e (ipad @ data))
      in digest e (opad @ tmpdigest))"

definition checksum :: "hash_lib \<Rightarrow> checksum_refs \<Rightarrow> bytes \<Rightarrow> crypt_error + crypt_value" where
  "checksum lib refs data =
     (if ref_method refs = Some SYM_0 then Inl (Error_Invalid_Arg ''method'')
      else
        let sym = (case ref_method refs of Some s \<Rightarrow> s | None \<Rightarrow> SYM_SHA1) in
        if ref_method refs \<noteq> None \<or> ref_secure refs \<or> ref_key refs \<noteq> None then
          if sym = SYM_CRC32 then
            (if ref_secure refs \<or> ref_key refs \<noteq> None then Inl Error_Bad_Refines
             else Inr (Integer_Value (sint (crc32_z lib data))))
          else if sym = SYM_ADLER32 then
            (if ref_secure refs \<or> ref_key refs \<noteq> None then Inl Error_Bad_Refines
             else Inr (Integer_Value (int (z_adler32 lib data))))
          else
            (case find (\<lambda>e. SAME_SYM_NONZERO (digest_sym e) sym) (digests lib) of
               Some e \<Rightarrow>
                 Inr (Binary_Value (take (digest_len e)
                   (case ref_key refs of
                      None \<Rightarrow> digest e data
                    | Some key \<Rightarrow> hmac e key data)))
             | None \<Rightarrow> Inl (Error_Invalid_Arg ''method''))
        else if ref_tcp refs then Inr (Integer_Value (Compute_IPC lib data))
        else
          (case ref_hash refs of
             Some n \<Rightarrow>
               (let sum = (if n \<le> 1 then 1 else n)
                in Inr (Integer_Value (c_rem (Hash_Bytes lib data) sum)))
           | None \<Rightarrow> Inr (Integer_Value (Compute_CRC24 lib data))))"

subsection \<open>aes-key and aes-stream\<close>

text \<open>
  A handle carries the identity of its cleanup routine and the native state it points to.
  The AES routines are vendored and not among the source files: they are parameters,
  over an abstract type of cipher contexts.  A CBC routine is given the input of \<open>pad_len\<close>
  bytes and yields the context after the call and the bytes it writes to the output
  buffer.
\<close>

datatype cleaner = cleanup_rc4_ctx | cleanup_aes_ctx | other_cleaner nat

record 'c handle =
  VAL_HANDLE_CLEANER :: cleaner
  VAL_HANDLE_POINTER :: 'c

datatype aes_mode = AES_MODE_128 | AES_MODE_256

datatype aes_key_mode = AES_MODE_ENCRYPT | AES_MODE_DECRYPT

record 'c aes_lib =
  AES_set_key :: "bytes \<Rightarrow> bytes \<Rightarrow> aes_mode \<Rightarrow> 'c"
  AES_convert_key :: "'c \<Rightarrow> 'c"
  key_mode :: "'c \<Rightarrow> aes_key_mode"
  AES_cbc_encrypt :: "'c \<Rightarrow> bytes \<Rightarrow> 'c \<times> bytes"
  AES_cbc_decrypt :: "'c \<Rightarrow> bytes \<Rightarrow> 'c \<times> bytes"

definition AES_IV_SIZE :: nat where
  \<comment> \<open>Modelled from the spec: aes.h is not among the source files; "AES IV and block
      size 16 bytes".\<close>
  "AES_IV_SIZE = 16"

definition AES_BLOCKSIZE :: "32 word" where
  \<comment> \<open>Modelled from the spec: aes.h is not among the source files; "AES IV and block
      size 16 bytes".\<close>
  "AES_BLOCKSIZE = 16"

datatype iv_arg = IV_Binary bytes | IV_Blank

definition aes_key :: "'c aes_lib \<Rightarrow> bytes \<Rightarrow> iv_arg \<Rightarrow> bool \<Rightarrow> crypt_error + 'c handle" where
  "aes_key lib key iv_arg decrypt =
     (case (case iv_arg of
              IV_Binary b \<Rightarrow>
                if length b < AES_IV_SIZE then Inl Error_IV_Too_Short
                else Inr (take AES_IV_SIZE b)
            | IV_Blank \<Rightarrow> Inr (replicate AES_IV_SIZE 0)) of
        Inl e \<Rightarrow> Inl e
      | Inr iv \<Rightarrow>
          let len = (push_bit 3 (word_of_nat (length key)) :: 32 word) in
          if len \<noteq> 128 \<and> len \<noteq> 256 then Inl (Error_AES_Key_Length (sint len))
          else
            let aes_ctx = AES_set_key lib key iv
                            (if len = 128 then AES_MODE_128 else AES_MODE_256);
                aes_ctx = (if decrypt then AES_convert_key lib aes_ctx else aes_ctx)
            in Inr \<lparr>VAL_HANDLE_CLEANER = cleanup_aes_ctx, VAL_HANDLE_POINTER = aes_ctx\<rparr>)"

text \<open>
  The result of \<open>aes-stream\<close>: the binary returned (none for the null result), the
  temporary padded copy if one was allocated, and the cipher context after the call.
  \<open>store_out\<close> is the write of the routine's output into the zero-filled \<open>data_out\<close>
  buffer, which is then handed over with its \<open>pad_len\<close> bytes.  The lengths \<open>len\<close> and
  \<open>pad_len\<close> are \<open>REBINT\<close>, 32 bits and signed: \<open>>>\<close> is the arithmetic shift and
  \<open><\<close> the signed comparison.
\<close>

record 'c aes_stream_result =
  stream_binary :: "bytes option"
  stream_pad_data :: "bytes option"
  stream_ctx :: 'c

definition store_out :: "bytes \<Rightarrow> bytes \<Rightarrow> bytes" where
  "store_out data_out written =
     take (length data_out) written @ drop (length written) data_out"

definition aes_stream ::
  "'c aes_lib \<Rightarrow> 'c handle \<Rightarrow> bytes \<Rightarrow> crypt_error + 'c aes_stream_result"
where
  "aes_stream lib ctx data =
     (if VAL_HANDLE_CLEANER ctx \<noteq> cleanup_aes_ctx then Inl Error_Not_AES_Context
      else
        let aes_ctx = VAL_HANDLE_POINTER ctx;
            len = (word_of_nat (length data) :: 32 word)
        in if len = 0 then
             Inr \<lparr>stream_binary = None, stream_pad_data = None, stream_ctx = aes_ctx\<rparr>
           else
             let pad_len = push_bit 4 (signed_drop_bit 4 (len - 1)) + AES_BLOCKSIZE;
                 pad_data = (if len <s pad_len
                             then Some (data @ replicate (unat pad_len - length data) 0)
                             else None);
                 dataBuffer = (case pad_data of Some p \<Rightarrow> p | None \<Rightarrow> data);
                 data_out = replicate (unat pad_len) 0;
                 (aes_ctx, written) =
                    (if key_mode lib aes_ctx = AES_MODE_DECRYPT
                     then AES_cbc_decrypt lib aes_ctx dataBuffer
                     else AES_cbc_encrypt lib aes_ctx dataBuffer)
             in Inr \<lparr>stream_binary = Some (store_out data_out written),
                     stream_pad_data = pad_data, stream_ctx = aes_ctx\<rparr>)"

text \<open>
  Sample libraries to evaluate with: a cipher context is the pair of key mode and
  initialisation vector, and the sample CBC routines add the first byte of the vector to
  every byte.
\<close>

definition sample_hash_lib :: hash_lib where
  "sample_hash_lib =
     \<lparr>crc32_z = (\<lambda>d. 0), z_adler32 = (\<lambda>d. 1), SHA1 = (\<lambda>d. replicate 20 0),
      MD5 = (\<lambda>d. replicate 16 0), Compute_IPC = (\<lambda>d. 0), Hash_Bytes = (\<lambda>d. 0),
      Compute_CRC24 = (\<lambda>d. int (length d) + 24)\<rparr>"

definition no_refs :: checksum_refs where
  "no_refs = \<lparr>ref_tcp = False, ref_secure = False, ref_hash = None, ref_method = None,
              ref_key = None\<rparr>"

definition sample_aes_lib :: "(aes_key_mode \<times> bytes) aes_lib" where
  "sample_aes_lib =
     \<lparr>AES_set_key = (\<lambda>key iv mode. (AES_MODE_ENCRYPT, iv)),
      AES_convert_key = (\<lambda>c. (AES_MODE_DECRYPT, snd c)),
      key_mode = fst,
      AES_cbc_encrypt = (\<lambda>c input. (c, map (\<lambda>b. b + hd (snd c)) input)),
      AES_cbc_decrypt = (\<lambda>c input. (c, map (\<lambda>b. b - hd (snd c)) input))\<rparr>"

definition sample_key :: bytes where
  "sample_key = replicate 16 7"

definition sample_handle :: "(aes_key_mode \<times> bytes) handle" where
  "sample_handle =
     \<lparr>VAL_HANDLE_CLEANER = cleanup_aes_ctx,
      VAL_HANDLE_POINTER = (AES_MODE_ENCRYPT, replicate 16 1)\<rparr>"

section \<open>PNG identification (mod-lodepng.c)\<close>

text \<open>
  \<open>lodepng_inspect\<close> belongs to the vendored codec and is a parameter: for the bytes of
  the binary it gives the error code, the width and the height.  A native either fails
  with an error or returns; the codec natives that fail do so with the text of the
  codec's error code.
\<close>

datatype png_error = Error_Codec nat

definition identify_png_q :: "(bytes \<Rightarrow> nat \<times> nat \<times> nat) \<Rightarrow> bytes \<Rightarrow> png_error + bool" where
  "identify_png_q lodepng_inspect data =
     (case lodepng_inspect data of
        (error, width, height) \<Rightarrow> if error \<noteq> 0 then Inr False else Inr True)"

text \<open>
  A sample inspection to evaluate with: error 27 for data shorter than a PNG header with
  its IHDR chunk, error 28 for a wrong signature, and no error otherwise.
\<close>

definition png_signature :: bytes where
  "png_signature = [137, 80, 78, 71, 13, 10, 26, 10]"

definition sample_inspect :: "bytes \<Rightarrow> nat \<times> nat \<times> nat" where
  "sample_inspect data =
     (if length data < 33 then (27, 0, 0)
      else if take 8 data \<noteq> png_signature then (28, 0, 0)
      else (0, 1, 1))"

section \<open>Properties of the quoting subsystem\<close>

subsection \<open>Arithmetic on the kind byte\<close>

lemma kind_byte_div_le3: "(ucast ((kb :: 8 word) div 64) :: 32 word) \<le> 3"
proof -
  have "unat kb < 256" using unsigned_less [of kb, where ?'a = nat] by simp
  then have "unat kb div 64 \<le> 3" by simp
  then show ?thesis
    by (simp add: word_le_nat_alt unsigned_ucast_eq unat_div take_bit_eq_mod)
qed

lemma ucast_ucast_byte: "(ucast (ucast (x :: 8 word) :: 32 word) :: 8 word) = x"
  by transfer (simp add: take_bit_eq_mod)

lemma ucast_add_byte: "(ucast ((a :: 32 word) + b) :: 8 word) = ucast a + ucast b"
proof -
  have low: "x mod 4294967296 mod 256 = x mod 256" for x :: int
    by (rule mod_mod_cancel) simp
  have "(a + b) mod 4294967296 mod 256 = (a mod 4294967296 + b mod 4294967296) mod 256"
    for a b :: int
  proof -
    have "(a mod 4294967296 + b mod 4294967296) mod 256 =
          (a mod 4294967296 mod 256 + b mod 4294967296 mod 256) mod 256"
      by (simp only: mod_add_eq)
    also have "\<dots> = (a mod 256 + b mod 256) mod 256"
      by (simp only: low)
    also have "\<dots> = (a + b) mod 256"
      by (simp only: mod_add_eq)
    finally show ?thesis
      by (simp only: low)
  qed
  then show ?thesis
    by transfer (simp add: take_bit_eq_mod)
qed

lemma kind_byte_rejoin: "(kb :: 8 word) mod 64 + 64 * (kb div 64) = kb"
  by (simp add: mod_mult_div_eq)

lemma requote_in_situ:
  "(kb :: 8 word) mod 64 + 64 * ucast (d + ucast (kb div 64) :: 32 word) - 64 * ucast d = kb"
proof -
  have "(ucast (d + ucast (kb div 64) :: 32 word) :: 8 word) = ucast d + kb div 64"
    by (simp only: ucast_add_byte ucast_ucast_byte)
  then have "kb mod 64 + 64 * ucast (d + ucast (kb div 64) :: 32 word) - 64 * ucast d =
             kb mod 64 + 64 * (kb div 64)"
    by (simp add: ring_distribs)
  then show ?thesis
    by (simp only: kind_byte_rejoin)
qed

lemma in_tag_mod: "((k :: 8 word) + 64 * t) mod 64 = k mod 64"
proof -
  have low: "x mod 256 mod 64 = x mod 64" for x :: nat
    by (rule mod_mod_cancel) simp
  have "unat ((k + 64 * t) mod 64) = (unat k + 64 * unat t mod 256) mod 256 mod 64"
    by (simp add: unat_mod unat_word_ariths)
  also have "\<dots> = (unat k + 64 * unat t mod 256) mod 64"
    by (simp only: low)
  also have "\<dots> = (unat k mod 64 + 64 * unat t mod 256 mod 64) mod 64"
    by (simp only: mod_add_eq)
  also have "\<dots> = (unat k mod 64 + 64 * unat t mod 64) mod 64"
    by (simp only: low)
  also have "\<dots> = unat k mod 64"
    by simp
  also have "\<dots> = unat (k mod 64)"
    by (simp add: unat_mod)
  finally show ?thesis
    by (simp only: word_unat_eq_iff)
qed

lemma in_tag_not_quoted:
  assumes "(kb :: 8 word) mod 64 \<noteq> r" and "r < 64"
  shows "kb mod 64 + 64 * t \<noteq> r"
proof
  assume "kb mod 64 + 64 * t = r"
  then have "(kb mod 64 + 64 * t) mod 64 = r mod 64"
    by simp
  then have "kb mod 64 mod 64 = r mod 64"
    by (simp only: in_tag_mod)
  moreover have "kb mod 64 < 64"
    by (rule word_mod_less_divisor) simp
  ultimately have "kb mod 64 = r"
    using assms(2) by (simp add: mod_word_less)
  with assms(1) show False
    by simp
qed

lemma tag_no_wrap:
  assumes "(t :: 32 word) \<le> 3"
  shows "unat ((kb :: 8 word) mod 64 + 64 * ucast t) = unat kb mod 64 + 64 * unat t"
proof -
  from assms have t3: "unat t \<le> 3"
    by (simp add: word_le_nat_alt)
  then have ut: "unat (ucast t :: 8 word) = unat t"
    by (simp add: unsigned_ucast_eq take_bit_eq_mod)
  have "unat kb mod 64 < 64"
    by simp
  with t3 have small: "unat kb mod 64 + 64 * unat t < 256"
    by linarith
  from t3 have "64 * unat t < 256"
    by simp
  then have "unat (64 * (ucast t :: 8 word)) = 64 * unat t"
    by (simp add: unat_word_ariths ut)
  with small show ?thesis
    by (simp add: unat_word_ariths unat_mod)
qed

subsection \<open>What Quotify does on each side of the depth-3 boundary\<close>

lemma Quotify_deep:
  assumes "kind_byte v \<noteq> REB_QUOTED b" and "3 < d + ucast (kind_byte v div REB_64)"
  shows "snd (Quotify_Core b h v d) =
           (RESET_VAL_HEADER v (REB_QUOTED b) {})
             \<lparr>extra := (if Is_Bindable b (kind_byte v mod REB_64) then extra v else 0),
              payload := \<lparr>slot1 = next_node h,
                          slot2 = d + ucast (kind_byte v div REB_64)\<rparr>\<rparr>"
    and "kind_byte (singulars (fst (Quotify_Core b h v d)) (next_node h)) =
           kind_byte v mod REB_64"
    and "extra (singulars (fst (Quotify_Core b h v d)) (next_node h)) = extra v"
    and "payload (singulars (fst (Quotify_Core b h v d)) (next_node h)) = payload v"
proof -
  from assms(2) have deep: "\<not> d + ucast (kind_byte v div REB_64) \<le> 3"
    by (simp add: not_le)
  show "snd (Quotify_Core b h v d) =
           (RESET_VAL_HEADER v (REB_QUOTED b) {})
             \<lparr>extra := (if Is_Bindable b (kind_byte v mod REB_64) then extra v else 0),
              payload := \<lparr>slot1 = next_node h,
                          slot2 = d + ucast (kind_byte v div REB_64)\<rparr>\<rparr>"
    and "kind_byte (singulars (fst (Quotify_Core b h v d)) (next_node h)) =
           kind_byte v mod REB_64"
    and "extra (singulars (fst (Quotify_Core b h v d)) (next_node h)) = extra v"
    and "payload (singulars (fst (Quotify_Core b h v d)) (next_node h)) = payload v"
    using assms(1) deep
    by (simp_all add: Quotify_Core_def Alloc_Singular_def Let_def Move_Value_Header_def
        RESET_VAL_HEADER_def)
qed

text \<open>
  C2.  Quote allocation boundary.  With the total depth computed as the code computes it
  (the added depth plus the depth in the type tag, as a \<open>REBCNT\<close>): a cell that is not in
  side-array form and whose total depth is at most 3 gets the tag
  \<open>base kind + 64 * depth\<close> (which fits the byte, so the sum is the plain one) and the
  heap of side arrays is left as it was; when the total
  depth exceeds 3 exactly one new one-cell side array is allocated, holding the unwrapped
  kind, extra and payload, and the cell becomes a \<open>REB_QUOTED\<close> cell that points at it and
  stores the total depth; a cell already in side-array form only has its stored depth
  increased, with the same side array and the heap left as it was.
\<close>

theorem Quotify_allocation_boundary:
  "(kind_byte v \<noteq> REB_QUOTED b \<and> d + ucast (kind_byte v div REB_64) \<le> 3 \<longrightarrow>
      Quotify_Core b h v d =
        (h, v\<lparr>kind_byte :=
                 kind_byte v mod REB_64 + REB_64 * ucast (d + ucast (kind_byte v div REB_64))\<rparr>)
      \<and> unat (kind_byte (snd (Quotify_Core b h v d))) =
          unat (kind_byte v) mod 64 + 64 * unat (d + ucast (kind_byte v div REB_64)))
   \<and> (kind_byte v \<noteq> REB_QUOTED b \<and> 3 < d + ucast (kind_byte v div REB_64) \<longrightarrow>
      (case Quotify_Core b h v d of (h', v') \<Rightarrow>
         next_node h' = Suc (next_node h)
         \<and> kind_byte v' = REB_QUOTED b
         \<and> payload v' = \<lparr>slot1 = next_node h, slot2 = d + ucast (kind_byte v div REB_64)\<rparr>
         \<and> kind_byte (singulars h' (next_node h)) = kind_byte v mod REB_64
         \<and> extra (singulars h' (next_node h)) = extra v
         \<and> payload (singulars h' (next_node h)) = payload v
         \<and> (\<forall>a. a \<noteq> next_node h \<longrightarrow> singulars h' a = singulars h a)))
   \<and> (kind_byte v = REB_QUOTED b \<longrightarrow>
      Quotify_Core b h v d =
        (h, v\<lparr>payload := (payload v)\<lparr>slot2 := slot2 (payload v) + d\<rparr>\<rparr>))"
proof (intro conjI impI)
  assume shallow: "kind_byte v \<noteq> REB_QUOTED b \<and> d + ucast (kind_byte v div REB_64) \<le> 3"
  then show in_tag: "Quotify_Core b h v d =
        (h, v\<lparr>kind_byte :=
                 kind_byte v mod REB_64 + REB_64 * ucast (d + ucast (kind_byte v div REB_64))\<rparr>)"
    by (simp add: Quotify_Core_def Let_def)
  from shallow have "d + ucast (kind_byte v div 64) \<le> 3"
    by (simp add: REB_64_def)
  then show "unat (kind_byte (snd (Quotify_Core b h v d))) =
          unat (kind_byte v) mod 64 + 64 * unat (d + ucast (kind_byte v div REB_64))"
    by (simp add: in_tag REB_64_def tag_no_wrap)
next
  assume deep: "kind_byte v \<noteq> REB_QUOTED b \<and> 3 < d + ucast (kind_byte v div REB_64)"
  then have "\<not> d + ucast (kind_byte v div REB_64) \<le> 3"
    by (simp add: not_le)
  with deep show "case Quotify_Core b h v d of (h', v') \<Rightarrow>
         next_node h' = Suc (next_node h)
         \<and> kind_byte v' = REB_QUOTED b
         \<and> payload v' = \<lparr>slot1 = next_node h, slot2 = d + ucast (kind_byte v div REB_64)\<rparr>
         \<and> kind_byte (singulars h' (next_node h)) = kind_byte v mod REB_64
         \<and> extra (singulars h' (next_node h)) = extra v
         \<and> payload (singulars h' (next_node h)) = payload v
         \<and> (\<forall>a. a \<noteq> next_node h \<longrightarrow> singulars h' a = singulars h a)"
    by (simp add: Quotify_Core_def Alloc_Singular_def Move_Value_Header_def
        RESET_VAL_HEADER_def Let_def)
next
  assume "kind_byte v = REB_QUOTED b"
  then show "Quotify_Core b h v d =
        (h, v\<lparr>payload := (payload v)\<lparr>slot2 := slot2 (payload v) + d\<rparr>\<rparr>)"
    by (simp add: Quotify_Core_def)
qed

theorem Quotify_allocation_boundary_witness:
  "Quotify_Core sample_build sample_heap date_cell 2 =
     (sample_heap, date_cell\<lparr>kind_byte := 168\<rparr>)
   \<and> (case Quotify_Core sample_build sample_heap date_cell 4 of (h', v') \<Rightarrow>
         next_node h' = 2 \<and> kind_byte v' = 3 \<and> payload v' = \<lparr>slot1 = 1, slot2 = 4\<rparr>
         \<and> kind_byte (singulars h' 1) = 40 \<and> extra (singulars h' 1) = 2019
         \<and> payload (singulars h' 1) = \<lparr>slot1 = 7, slot2 = 9\<rparr>)
   \<and> Quotify_Core sample_build sample_heap deep_cell 100 =
       (sample_heap, deep_cell\<lparr>payload := \<lparr>slot1 = 1, slot2 = 105\<rparr>\<rparr>)"
  using Quotify_allocation_boundary [of date_cell sample_build 2 sample_heap]
    Quotify_allocation_boundary [of date_cell sample_build 4 sample_heap]
    Quotify_allocation_boundary [of deep_cell sample_build 100 sample_heap]
  by (simp add: sample_build_def sample_heap_def date_cell_def deep_cell_def REB_64_def
      split: prod.splits)

text \<open>
  C1.  Quote/unquote round trip, at the input where it fails.  A cell that is not in
  side-array form, of a kind that is not bindable, quoted to a total depth above 3 and then
  unquoted by the same count, gets its kind byte and its payload back, but its extra slot
  is null: Quotify nulls the outer extra of a non-bindable kind and keeps the original in
  the side array, and the collapsing branch of Unquotify copies header and payload back
  but not the extra (Dequotify, the sibling that also collapses a side array, does copy
  it).  So a non-null extra, such as the packed date of a DATE!, is not reproduced.
\<close>

theorem Quotify_Unquotify_extra_lost:
  assumes "kind_byte v \<noteq> REB_QUOTED b"
    and "3 < d + ucast (kind_byte v div REB_64)"
    and "\<not> Is_Bindable b (kind_byte v mod REB_64)"
  shows "case Quotify_Core b h v d of (h', v') \<Rightarrow>
           kind_byte (Unquotify_Core b h' v' d) = kind_byte v
         \<and> payload (Unquotify_Core b h' v' d) = payload v
         \<and> extra (Unquotify_Core b h' v' d) = 0
         \<and> (extra v \<noteq> 0 \<longrightarrow> extra (Unquotify_Core b h' v' d) \<noteq> extra v)
         \<and> extra (snd (Dequotify b h' v')) = extra v"
proof -
  have q: "(ucast (kind_byte v div 64) :: 32 word) \<le> 3"
    by (rule kind_byte_div_le3)
  from assms(2) q have d0: "d \<noteq> 0"
    by (auto simp: REB_64_def)
  have undo: "d + ucast (kind_byte v div 64) - d = (ucast (kind_byte v div 64) :: 32 word)"
    by simp
  obtain h' v' where qv: "Quotify_Core b h v d = (h', v')"
    by (cases "Quotify_Core b h v d")
  from Quotify_deep [OF assms(1,2), of h] qv assms(3)
  have v': "v' = (RESET_VAL_HEADER v (REB_QUOTED b) {})
             \<lparr>extra := 0,
              payload := \<lparr>slot1 = next_node h,
                          slot2 = d + ucast (kind_byte v div REB_64)\<rparr>\<rparr>"
    and c: "kind_byte (singulars h' (next_node h)) = kind_byte v mod REB_64"
       "payload (singulars h' (next_node h)) = payload v"
       "extra (singulars h' (next_node h)) = extra v"
    by simp_all
  from q have nq: "\<not> 3 < (ucast (kind_byte v div 64) :: 32 word)"
    by (simp add: not_less)
  show ?thesis
    using d0 nq c
    by (simp add: qv v' Unquotify_Core_def Dequotify_def Let_def undo
        Move_Value_Header_def RESET_VAL_HEADER_def REB_64_def ucast_ucast_byte kind_byte_rejoin)
qed

theorem Quotify_Unquotify_extra_lost_witness:
  "kind_byte date_cell \<noteq> REB_QUOTED sample_build
   \<and> 3 < (4 :: 32 word) + ucast (kind_byte date_cell div REB_64)
   \<and> \<not> Is_Bindable sample_build (kind_byte date_cell mod REB_64)
   \<and> extra date_cell = 2019
   \<and> (case Quotify_Core sample_build sample_heap date_cell 4 of (h', v') \<Rightarrow>
         kind_byte (Unquotify_Core sample_build h' v' 4) = 40
       \<and> payload (Unquotify_Core sample_build h' v' 4) = \<lparr>slot1 = 7, slot2 = 9\<rparr>
       \<and> extra (Unquotify_Core sample_build h' v' 4) = 0
       \<and> extra (snd (Dequotify sample_build h' v')) = 2019)"
proof -
  have a1: "kind_byte date_cell \<noteq> REB_QUOTED sample_build"
    by (simp add: date_cell_def sample_build_def)
  have a2: "3 < (4 :: 32 word) + ucast (kind_byte date_cell div REB_64)"
    by (simp add: date_cell_def REB_64_def)
  have a3: "\<not> Is_Bindable sample_build (kind_byte date_cell mod REB_64)"
    by (simp add: date_cell_def sample_build_def REB_64_def)
  have a4: "extra date_cell = 2019" "kind_byte date_cell = 40"
    "payload date_cell = \<lparr>slot1 = 7, slot2 = 9\<rparr>"
    by (simp_all add: date_cell_def)
  show ?thesis
    using Quotify_Unquotify_extra_lost [OF a1 a2 a3, of sample_heap] a1 a2 a3 a4
    by (simp split: prod.splits)
qed

text \<open>
  Where the round trip does hold: under the invariant that sys-quoted.h asserts, kind byte
  and payload always come back, and the extra slot comes back except in the case above.
\<close>

lemma Quotify_Unquotify_round_trip:
  assumes rq: "REB_QUOTED b < REB_64" and inv: "quoting_invariant b v"
  shows "case Quotify_Core b h v d of (h', v') \<Rightarrow>
           kind_byte (Unquotify_Core b h' v' d) = kind_byte v
         \<and> payload (Unquotify_Core b h' v' d) = payload v
         \<and> extra (Unquotify_Core b h' v' d) =
             (if kind_byte v \<noteq> REB_QUOTED b \<and> 3 < d + ucast (kind_byte v div REB_64)
                 \<and> \<not> Is_Bindable b (kind_byte v mod REB_64)
              then 0 else extra v)"
proof (cases "kind_byte v = REB_QUOTED b")
  case True
  with inv have "3 < slot2 (payload v)"
    by (simp add: quoting_invariant_def)
  with True show ?thesis
    by (simp add: Quotify_Core_def Unquotify_Core_def Let_def)
next
  case nq: False
  with inv have kind: "kind_byte v mod 64 \<noteq> REB_QUOTED b"
    by (simp add: quoting_invariant_def REB_64_def)
  have q: "\<not> 3 < (ucast (kind_byte v div 64) :: 32 word)"
    using kind_byte_div_le3 [of "kind_byte v"] by (simp add: not_less)
  show ?thesis
  proof (cases "d + ucast (kind_byte v div REB_64) \<le> 3")
    case True
    from kind rq have tag: "kind_byte v mod 64 + 64 * t \<noteq> REB_QUOTED b" for t
      by (simp add: in_tag_not_quoted REB_64_def)
    from True have shallow: "\<not> 3 < d + ucast (kind_byte v div 64)"
      by (simp add: not_less REB_64_def)
    from True nq tag q shallow show ?thesis
      by (simp add: Quotify_Core_def Unquotify_Core_def Unquotify_In_Situ_def Let_def
          REB_64_def requote_in_situ ucast_ucast_byte kind_byte_rejoin)
  next
    case False
    then have deep: "3 < d + ucast (kind_byte v div REB_64)"
      by (simp add: not_le)
    with q have d0: "d \<noteq> 0"
      by (auto simp: REB_64_def)
    have undo: "d + ucast (kind_byte v div 64) - d = (ucast (kind_byte v div 64) :: 32 word)"
      by simp
    obtain h' v' where qv: "Quotify_Core b h v d = (h', v')"
      by (cases "Quotify_Core b h v d")
    from Quotify_deep [OF nq deep, of h] qv
    have v': "v' = (RESET_VAL_HEADER v (REB_QUOTED b) {})
               \<lparr>extra := (if Is_Bindable b (kind_byte v mod REB_64) then extra v else 0),
                payload := \<lparr>slot1 = next_node h,
                            slot2 = d + ucast (kind_byte v div REB_64)\<rparr>\<rparr>"
      and c: "kind_byte (singulars h' (next_node h)) = kind_byte v mod REB_64"
         "payload (singulars h' (next_node h)) = payload v"
      by simp_all
    show ?thesis
      using d0 q c deep nq
      by (simp add: qv v' Unquotify_Core_def Let_def undo Move_Value_Header_def
          RESET_VAL_HEADER_def REB_64_def ucast_ucast_byte kind_byte_rejoin)
  qed
qed

section \<open>Properties of context equality\<close>

lemma rest_all_hidden_visible: "rest_all_hidden p \<longleftrightarrow> visible_slots p = []"
  by (induction p rule: rest_all_hidden.induct) (auto simp: visible_slots_def)

lemma visible_slots_Nil: "visible_slots [] = []"
  by (simp add: visible_slots_def)

lemma Equal_Context_tail_visible:
  "Equal_Context_tail p1 p2 \<longleftrightarrow> visible_slots p1 = [] \<and> visible_slots p2 = []"
  by (simp add: Equal_Context_tail_def rest_all_hidden_visible)






section \<open>Properties of APPEND on contexts\<close>



section \<open>Properties of the GOB coordinate mapping\<close>

subsection \<open>Exact coordinates and accumulated offsets\<close>

text \<open>
  Over coordinates whose arithmetic is exact (an ordered commutative group, the integers
  for one), testing against the accumulated offsets and subtracting each offset on the way
  down are the same.
\<close>

lemma scan_pane_find:
  fixes st :: "('a :: linordered_ab_group_add) gob_store"
  shows "scan_pane st items x y xo yo =
         find (\<lambda>child. in_bounding_box (st child) (xo - x, yo - y)) items"
  by (induction items) (auto simp: in_bounding_box_def algebra_simps)

lemma Map_Gob_Inner_loop_hit_test:
  fixes st :: "('a :: linordered_ab_group_add) gob_store"
  shows "(case Map_Gob_Inner_loop st n gob x y xo yo of
            (inner, x', y') \<Rightarrow> (inner, xo - x', yo - y')) =
         hit_test st n gob (xo - x, yo - y)"
proof (induction n arbitrary: gob x y)
  case 0
  show ?case by simp
next
  case (Suc n)
  show ?case
  proof (cases "GOB_PANE (st gob)")
    case None
    then show ?thesis by simp
  next
    case (Some pane)
    show ?thesis
    proof (cases "scan_pane st (rev pane) x y xo yo")
      case None
      with Some show ?thesis
        by (simp add: scan_pane_find [symmetric])
    next
      case (Some child)
      have "xo - (x + GOB_X (st child)) = xo - x - GOB_X (st child)"
        "yo - (y + GOB_Y (st child)) = yo - y - GOB_Y (st child)"
        by (simp_all add: algebra_simps)
      with Some \<open>GOB_PANE (st gob) = Some pane\<close>
        Suc.IH [of child "x + GOB_X (st child)" "y + GOB_Y (st child)"]
      show ?thesis
        by (simp add: scan_pane_find [symmetric])
    qed
  qed
qed

lemma Map_Gob_Inner_exact:
  fixes st :: "('a :: linordered_ab_group_add) gob_store"
  shows "Map_Gob_Inner st gob xo yo = hit_test st 1000 gob (xo, yo)"
  using Map_Gob_Inner_loop_hit_test
    [where st = st and n = 1000 and gob = gob and x = 0 and y = 0 and xo = xo and yo = yo]
  by (simp add: Map_Gob_Inner_def)

lemma scan_pane_find_at:
  "scan_pane st items x y xo yo =
   find (\<lambda>child. in_bounding_box_at (st child) (x, y) (xo, yo)) items"
  by (induction items) (auto simp: in_bounding_box_at_def)

lemma Map_Gob_Inner_loop_accumulated:
  "(case Map_Gob_Inner_loop st n gob x y xo yo of
      (inner, x', y') \<Rightarrow> (inner, xo - x', yo - y')) =
   hit_test_accumulated st n gob (x, y) (xo, yo)"
proof (induction n arbitrary: gob x y)
  case 0
  show ?case by simp
next
  case (Suc n)
  then show ?case
    by (simp add: scan_pane_find_at split: option.splits)
qed

subsection \<open>Rounding is exact on small integers\<close>

lemma ulp_search_dyadic:
  "\<bar>q\<bar> < 16777216 \<Longrightarrow> j \<le> n \<Longrightarrow> \<exists>i\<le>j. ulp_search q n (1 / 2 ^ j) = 1 / 2 ^ i"
proof (induction n arbitrary: j)
  case 0
  then show ?case by simp
next
  case (Suc n)
  show ?case
  proof (cases "\<bar>q\<bar> < 16777216 * (1 / 2 ^ j)")
    case True
    then show ?thesis by auto
  next
    case False
    with Suc.prems(1) have "j \<noteq> 0" by (cases j) auto
    then obtain j' where j: "j = Suc j'" by (cases j) auto
    with Suc.prems(2) have "j' \<le> n" by simp
    from Suc.IH [OF Suc.prems(1) this] obtain i where "i \<le> j'"
      "ulp_search q n (1 / 2 ^ j') = 1 / 2 ^ i" by blast
    moreover have "2 * (1 / (2::rat) ^ j) = 1 / 2 ^ j'" using j by simp
    ultimately show ?thesis using False j
      by (auto intro!: exI [of _ i])
  qed
qed

lemma round_half_even_of_int: "round_half_even (of_int m) = m"
  by (simp add: round_half_even_def)

lemma round_REBD32_of_int:
  assumes "\<bar>n\<bar> < 16777216"
  shows "round_REBD32 (of_int n) = Dec (of_int n)"
proof -
  from assms have "\<bar>(of_int n :: rat)\<bar> < 16777216"
    by (metis of_int_abs of_int_less_numeral_iff)
  from ulp_search_dyadic [OF this, of 149 254]
  obtain i where u: "ulp (of_int n) = 1 / 2 ^ i"
    by (auto simp: ulp_def)
  have q: "(of_int n :: rat) / (1 / 2 ^ i) = of_int (n * 2 ^ i)"
    by simp
  have r: "(of_int (n * 2 ^ i) :: rat) * (1 / 2 ^ i) = of_int n"
    by simp
  have "\<bar>(of_int n :: rat)\<bar> < 2 ^ 128"
    using \<open>\<bar>(of_int n :: rat)\<bar> < 16777216\<close> by simp
  then show ?thesis
    unfolding round_REBD32_def Let_def u q round_half_even_of_int r
    by simp
qed

lemma dec_of_int_add:
  "\<bar>a + b\<bar> < 16777216 \<Longrightarrow> dec_of_int a + dec_of_int b = dec_of_int (a + b)"
  using round_REBD32_of_int [of "a + b"] by (simp add: dec_of_int_def)

lemma dec_of_int_diff:
  "\<bar>a - b\<bar> < 16777216 \<Longrightarrow> dec_of_int a - dec_of_int b = dec_of_int (a - b)"
  using round_REBD32_of_int [of "a - b"] by (simp add: dec_of_int_def minus_REBD32_def)

lemma dec_of_int_le: "dec_of_int a \<le> dec_of_int b \<longleftrightarrow> a \<le> b"
  by (simp add: dec_of_int_def)

lemma dec_of_int_less: "dec_of_int a < dec_of_int b \<longleftrightarrow> a < b"
  by (simp add: dec_of_int_def)

lemma pixel_dec_of_int:
  "pixel v \<Longrightarrow> v = dec_of_int (int_of_dec v) \<and> \<bar>int_of_dec v\<bar> \<le> 16384"
  by (cases v) (auto simp: pixel_def dec_of_int_def int_of_dec_def)

subsection \<open>Pixel scenes\<close>

text \<open>
  On a scene of pixel coordinates the \<open>REBD32\<close> computation is the integer computation,
  value by value: no sum that the loop or the hit test forms reaches \<open>2 ^ 24\<close>.
\<close>

lemma pixel_gob_fields:
  assumes "pixel_gob g"
  shows "GOB_X g = dec_of_int (GOB_X (int_gob g))" "\<bar>GOB_X (int_gob g)\<bar> \<le> 16384"
    "GOB_Y g = dec_of_int (GOB_Y (int_gob g))" "\<bar>GOB_Y (int_gob g)\<bar> \<le> 16384"
    "GOB_W g = dec_of_int (GOB_W (int_gob g))" "\<bar>GOB_W (int_gob g)\<bar> \<le> 16384"
    "GOB_H g = dec_of_int (GOB_H (int_gob g))" "\<bar>GOB_H (int_gob g)\<bar> \<le> 16384"
  using assms pixel_dec_of_int [of "GOB_X g"] pixel_dec_of_int [of "GOB_Y g"]
    pixel_dec_of_int [of "GOB_W g"] pixel_dec_of_int [of "GOB_H g"]
  by (simp_all add: pixel_gob_def int_gob_def)

lemma scan_pane_pixel:
  assumes pix: "\<And>g. pixel_gob (ft g)"
    and b: "\<bar>X\<bar> \<le> 16384000" "\<bar>Y\<bar> \<le> 16384000"
  shows "scan_pane ft items (dec_of_int X) (dec_of_int Y) (dec_of_int XO) (dec_of_int YO) =
         scan_pane (\<lambda>g. int_gob (ft g)) items X Y XO YO"
proof (induction items)
  case Nil
  show ?case by simp
next
  case (Cons child items)
  note f = pixel_gob_fields [OF pix [of child]]
  have x1: "dec_of_int X + GOB_X (ft child) = dec_of_int (X + GOB_X (int_gob (ft child)))"
    using b f(2) by (subst f(1)) (simp add: dec_of_int_add)
  have x2: "dec_of_int (X + GOB_X (int_gob (ft child))) + GOB_W (ft child) =
      dec_of_int (X + GOB_X (int_gob (ft child)) + GOB_W (int_gob (ft child)))"
    using b f(2) f(6) by (subst f(5)) (simp add: dec_of_int_add)
  have y1: "dec_of_int Y + GOB_Y (ft child) = dec_of_int (Y + GOB_Y (int_gob (ft child)))"
    using b f(4) by (subst f(3)) (simp add: dec_of_int_add)
  have y2: "dec_of_int (Y + GOB_Y (int_gob (ft child))) + GOB_H (ft child) =
      dec_of_int (Y + GOB_Y (int_gob (ft child)) + GOB_H (int_gob (ft child)))"
    using b f(4) f(8) by (subst f(7)) (simp add: dec_of_int_add)
  show ?case
    by (simp add: Cons.IH x1 x2 y1 y2 dec_of_int_le dec_of_int_less)
qed

lemma Map_Gob_Inner_loop_pixel:
  assumes pix: "\<And>g. pixel_gob (ft g)"
  shows "n + k \<le> 1000 \<Longrightarrow> \<bar>X\<bar> \<le> 16384 * int k \<Longrightarrow> \<bar>Y\<bar> \<le> 16384 * int k \<Longrightarrow>
    \<exists>g x y. Map_Gob_Inner_loop (\<lambda>g. int_gob (ft g)) n gob X Y XO YO = (g, x, y)
      \<and> \<bar>x\<bar> \<le> 16384000 \<and> \<bar>y\<bar> \<le> 16384000
      \<and> Map_Gob_Inner_loop ft n gob (dec_of_int X) (dec_of_int Y) (dec_of_int XO)
            (dec_of_int YO) = (g, dec_of_int x, dec_of_int y)"
proof (induction n arbitrary: gob X Y k)
  case 0
  then show ?case by simp
next
  case (Suc n)
  from Suc.prems have k: "k \<le> 999" by simp
  with Suc.prems have b: "\<bar>X\<bar> \<le> 16384000" "\<bar>Y\<bar> \<le> 16384000" by simp_all
  note scan = scan_pane_pixel [where ft = ft, OF pix b]
  show ?case
  proof (cases "GOB_PANE (ft gob)")
    case None
    then show ?thesis using b by (simp add: int_gob_def)
  next
    case (Some pane)
    then have pane: "GOB_PANE (int_gob (ft gob)) = Some pane" by (simp add: int_gob_def)
    show ?thesis
    proof (cases "scan_pane (\<lambda>g. int_gob (ft g)) (rev pane) X Y XO YO")
      case None
      with Some pane scan b show ?thesis by simp
    next
      case (Some child)
      note f = pixel_gob_fields [OF pix [of child]]
      have x1: "dec_of_int X + GOB_X (ft child) = dec_of_int (X + GOB_X (int_gob (ft child)))"
        using b f(2) by (subst f(1)) (simp add: dec_of_int_add)
      have y1: "dec_of_int Y + GOB_Y (ft child) = dec_of_int (Y + GOB_Y (int_gob (ft child)))"
        using b f(4) by (subst f(3)) (simp add: dec_of_int_add)
      have "n + Suc k \<le> 1000" using Suc.prems by simp
      moreover have "\<bar>X + GOB_X (int_gob (ft child))\<bar> \<le> 16384 * int (Suc k)"
        using Suc.prems(2) f(2) by simp
      moreover have "\<bar>Y + GOB_Y (int_gob (ft child))\<bar> \<le> 16384 * int (Suc k)"
        using Suc.prems(3) f(4) by simp
      ultimately show ?thesis
        using Suc.IH [of "Suc k" "X + GOB_X (int_gob (ft child))"
            "Y + GOB_Y (int_gob (ft child))" child]
          Some pane \<open>GOB_PANE (ft gob) = Some pane\<close> scan
        by (simp add: x1 y1)
    qed
  qed
qed

lemma in_bounding_box_pixel:
  assumes "pixel_gob g"
  shows "in_bounding_box g (dec_of_int PX, dec_of_int PY) =
         in_bounding_box (int_gob g) (PX, PY)"
proof -
  note f = pixel_gob_fields [OF assms]
  have x2: "GOB_X g + GOB_W g = dec_of_int (GOB_X (int_gob g) + GOB_W (int_gob g))"
    using f(2) f(6) by (subst f(1), subst f(5)) (simp add: dec_of_int_add)
  have y2: "GOB_Y g + GOB_H g = dec_of_int (GOB_Y (int_gob g) + GOB_H (int_gob g))"
    using f(4) f(8) by (subst f(3), subst f(7)) (simp add: dec_of_int_add)
  have "GOB_X g \<le> dec_of_int PX \<longleftrightarrow> GOB_X (int_gob g) \<le> PX"
    by (subst f(1)) (simp add: dec_of_int_le)
  moreover have "GOB_Y g \<le> dec_of_int PY \<longleftrightarrow> GOB_Y (int_gob g) \<le> PY"
    by (subst f(3)) (simp add: dec_of_int_le)
  ultimately show ?thesis
    by (simp add: in_bounding_box_def x2 y2 dec_of_int_less)
qed

lemma hit_test_pixel:
  assumes pix: "\<And>g. pixel_gob (ft g)"
  shows "n + k \<le> 1000 \<Longrightarrow> \<bar>PX\<bar> \<le> 16384 * (int k + 1) \<Longrightarrow> \<bar>PY\<bar> \<le> 16384 * (int k + 1) \<Longrightarrow>
    hit_test ft n gob (dec_of_int PX, dec_of_int PY) =
    (case hit_test (\<lambda>g. int_gob (ft g)) n gob (PX, PY) of
       (g, x, y) \<Rightarrow> (g, dec_of_int x, dec_of_int y))"
proof (induction n arbitrary: gob PX PY k)
  case 0
  show ?case by simp
next
  case (Suc n)
  have box: "(\<lambda>child. in_bounding_box (ft child) (dec_of_int PX, dec_of_int PY)) =
      (\<lambda>child. in_bounding_box (int_gob (ft child)) (PX, PY))"
    by (simp add: in_bounding_box_pixel [OF pix])
  show ?case
  proof (cases "GOB_PANE (ft gob)")
    case None
    then show ?thesis by (simp add: int_gob_def)
  next
    case (Some pane)
    then have pane: "GOB_PANE (int_gob (ft gob)) = Some pane" by (simp add: int_gob_def)
    show ?thesis
    proof (cases "find (\<lambda>child. in_bounding_box (int_gob (ft child)) (PX, PY)) (rev pane)")
      case None
      with Some pane box show ?thesis by simp
    next
      case (Some child)
      note f = pixel_gob_fields [OF pix [of child]]
      from Suc.prems have k: "k \<le> 999" by simp
      have x1: "dec_of_int PX - GOB_X (ft child) = dec_of_int (PX - GOB_X (int_gob (ft child)))"
        using Suc.prems(2) k f(2) by (subst f(1)) (simp add: dec_of_int_diff)
      have y1: "dec_of_int PY - GOB_Y (ft child) = dec_of_int (PY - GOB_Y (int_gob (ft child)))"
        using Suc.prems(3) k f(4) by (subst f(3)) (simp add: dec_of_int_diff)
      have "n + Suc k \<le> 1000" using Suc.prems by simp
      moreover have "\<bar>PX - GOB_X (int_gob (ft child))\<bar> \<le> 16384 * (int (Suc k) + 1)"
        using Suc.prems(2) f(2) by simp
      moreover have "\<bar>PY - GOB_Y (int_gob (ft child))\<bar> \<le> 16384 * (int (Suc k) + 1)"
        using Suc.prems(3) f(4) by simp
      ultimately show ?thesis
        using Suc.IH [of "Suc k" "PX - GOB_X (int_gob (ft child))"
            "PY - GOB_Y (int_gob (ft child))" child]
          Some pane \<open>GOB_PANE (ft gob) = Some pane\<close> box
        by (simp add: x1 y1)
    qed
  qed
qed

lemma Map_Gob_Inner_pixel:
  assumes pix: "\<And>g. pixel_gob (ft g)" and px: "pixel fx" and py: "pixel fy"
  shows "Map_Gob_Inner ft gob fx fy = hit_test ft 1000 gob (fx, fy)"
proof -
  define XO YO where "XO = int_of_dec fx" and "YO = int_of_dec fy"
  from px py have fx: "fx = dec_of_int XO" "\<bar>XO\<bar> \<le> 16384"
    and fy: "fy = dec_of_int YO" "\<bar>YO\<bar> \<le> 16384"
    using pixel_dec_of_int [of fx] pixel_dec_of_int [of fy] by (simp_all add: XO_def YO_def)
  from Map_Gob_Inner_loop_pixel [where ft = ft and n = 1000 and k = 0 and X = 0 and Y = 0
      and XO = XO and YO = YO and gob = gob, OF pix]
  obtain g x y where
    il: "Map_Gob_Inner_loop (\<lambda>g. int_gob (ft g)) 1000 gob 0 0 XO YO = (g, x, y)"
    and b: "\<bar>x\<bar> \<le> 16384000" "\<bar>y\<bar> \<le> 16384000"
    and fl: "Map_Gob_Inner_loop ft 1000 gob (dec_of_int 0) (dec_of_int 0) (dec_of_int XO)
        (dec_of_int YO) = (g, dec_of_int x, dec_of_int y)"
    by auto
  have z: "(0 :: REBD32) = dec_of_int 0"
    by (simp add: zero_REBD32_def dec_of_int_def)
  have "Map_Gob_Inner ft gob fx fy = (g, dec_of_int (XO - x), dec_of_int (YO - y))"
    using fl b fx(2) fy(2)
    by (simp add: Map_Gob_Inner_def fx(1) fy(1) z dec_of_int_diff)
  also have "\<dots> = (case Map_Gob_Inner (\<lambda>g. int_gob (ft g)) gob XO YO of
      (g, x, y) \<Rightarrow> (g, dec_of_int x, dec_of_int y))"
    using il by (simp add: Map_Gob_Inner_def)
  also have "\<dots> = (case hit_test (\<lambda>g. int_gob (ft g)) 1000 gob (XO, YO) of
      (g, x, y) \<Rightarrow> (g, dec_of_int x, dec_of_int y))"
    by (simp add: Map_Gob_Inner_exact)
  also have "\<dots> = hit_test ft 1000 gob (dec_of_int XO, dec_of_int YO)"
    using hit_test_pixel [where ft = ft and n = 1000 and k = 0 and PX = XO and PY = YO
        and gob = gob, OF pix] fx(2) fy(2)
    by simp
  finally show ?thesis by (simp add: fx(1) fy(1))
qed

lemma int_gob_dec_gob: "int_gob (dec_gob g) = g"
  by (simp add: int_gob_def dec_gob_def int_of_dec_def dec_of_int_def)

subsection \<open>Evaluation on concrete scenes\<close>

lemma ulp_search_numeral:
  "ulp_search q (numeral k) u =
     (if \<bar>q\<bar> < 16777216 * u then u else ulp_search q (pred_numeral k) (2 * u))"
  by (simp add: numeral_eq_Suc)

lemma floor_rat_numeral:
  "\<lfloor>(numeral a :: rat) / numeral b\<rfloor> = numeral a div numeral b"
  "\<lfloor>- ((numeral a :: rat) / numeral b)\<rfloor> = - numeral a div numeral b"
  using floor_divide_of_int_eq [of "numeral a" "numeral b", where ?'a = rat]
    floor_divide_of_int_eq [of "- numeral a" "numeral b", where ?'a = rat]
  by simp_all

lemmas round_eval = round_REBD32_def ulp_def ulp_search_numeral round_half_even_def Let_def
  floor_rat_numeral minus_REBD32_def zero_REBD32_def

lemma Map_Gob_Inner_loop_numeral:
  "Map_Gob_Inner_loop st (numeral k) gob x y xo yo =
     (case GOB_PANE (st gob) of
        None \<Rightarrow> (gob, x, y)
      | Some pane \<Rightarrow>
          (case scan_pane st (rev pane) x y xo yo of
             None \<Rightarrow> (gob, x, y)
           | Some child \<Rightarrow>
               Map_Gob_Inner_loop st (pred_numeral k) child
                 (x + GOB_X (st child)) (y + GOB_Y (st child)) xo yo))"
  by (simp add: numeral_eq_Suc)

lemma hit_test_numeral:
  "hit_test st (numeral k) gob p =
     (case GOB_PANE (st gob) of
        None \<Rightarrow> (gob, fst p, snd p)
      | Some pane \<Rightarrow>
          (case find (\<lambda>child. in_bounding_box (st child) p) (rev pane) of
             None \<Rightarrow> (gob, fst p, snd p)
           | Some child \<Rightarrow>
               hit_test st (pred_numeral k) child
                 (fst p - GOB_X (st child), snd p - GOB_Y (st child))))"
  by (simp add: numeral_eq_Suc)

lemma find_weak_cong: "xs = ys \<Longrightarrow> find P xs = find P ys"
  by simp

lemma hit_test_accumulated_numeral:
  "hit_test_accumulated st (numeral k) gob acc p =
     (case GOB_PANE (st gob) of
        None \<Rightarrow> (gob, fst p - fst acc, snd p - snd acc)
      | Some pane \<Rightarrow>
          (case find (\<lambda>child. in_bounding_box_at (st child) acc p) (rev pane) of
             None \<Rightarrow> (gob, fst p - fst acc, snd p - snd acc)
           | Some child \<Rightarrow>
               hit_test_accumulated st (pred_numeral k) child
                 (fst acc + GOB_X (st child), snd acc + GOB_Y (st child)) p))"
  by (simp add: numeral_eq_Suc)

lemmas gob_eval = Map_Gob_Inner_def Map_Gob_Inner_loop_numeral hit_test_numeral
  hit_test_accumulated_numeral in_bounding_box_def in_bounding_box_at_def round_eval

lemmas pixel_scene_eval = pixel_scene_def sample_scene_def leaf_gob_def dec_gob_def
  dec_of_int_def

text \<open>
  C5.  GOB hit-testing, as the code has it.  For every coordinate type, \<open>REBD32\<close> among
  them, the forward mapping of \<open>Map_Gob_Inner\<close>, and so of \<open>map-gob-offset\<close> without
  \<open>/reverse\<close>, is the hit test with accumulated offsets run for at most 1000 steps: from a
  node and a point, take the first child, last child first, whose box, moved by the sum
  of the offsets of the nodes entered so far, holds the point as given; add its offset to
  the sum and descend; stop at a node without a pane, or without a matching child, or when
  the 1000 steps are used up, and return the node reached and the point less the sum.
  Using up the steps is an ordinary return.  On \<open>REBD32\<close> scenes of pixel coordinates
  (integers of magnitude at most 16384, in every node and in the point) this is the hit
  test of the specification, which subtracts the offset of each child entered from the
  point on the way down.  Without that bound the two can differ, as the rounded sums of
  the code and the rounded differences of the specification need not agree.
\<close>

theorem Map_Gob_Inner_accumulated_hit_test:
  fixes st :: "('a :: {plus, minus, zero, ord}) gob_store" and ft :: "REBD32 gob_store"
  shows "Map_Gob_Inner st gob xo yo = hit_test_accumulated st 1000 gob (0, 0) (xo, yo)
       \<and> map_gob_offset st gob (xo, yo) False =
           hit_test_accumulated st 1000 gob (0, 0) (xo, yo)
       \<and> ((\<forall>g. pixel_gob (ft g)) \<and> pixel fx \<and> pixel fy \<longrightarrow>
            Map_Gob_Inner ft fgob fx fy = hit_test ft 1000 fgob (fx, fy)
            \<and> map_gob_offset ft fgob (fx, fy) False = hit_test ft 1000 fgob (fx, fy))"
proof (intro conjI impI)
  show acc: "Map_Gob_Inner st gob xo yo = hit_test_accumulated st 1000 gob (0, 0) (xo, yo)"
    using Map_Gob_Inner_loop_accumulated
      [where st = st and n = 1000 and gob = gob and x = 0 and y = 0 and xo = xo and yo = yo]
    by (simp add: Map_Gob_Inner_def)
  then show "map_gob_offset st gob (xo, yo) False =
      hit_test_accumulated st 1000 gob (0, 0) (xo, yo)"
    by (simp add: map_gob_offset_def)
next
  assume h: "(\<forall>g. pixel_gob (ft g)) \<and> pixel fx \<and> pixel fy"
  then show hit: "Map_Gob_Inner ft fgob fx fy = hit_test ft 1000 fgob (fx, fy)"
    by (intro Map_Gob_Inner_pixel) simp_all
  then show "map_gob_offset ft fgob (fx, fy) False = hit_test ft 1000 fgob (fx, fy)"
    by (simp add: map_gob_offset_def)
qed

theorem Map_Gob_Inner_accumulated_hit_test_witness:
  "(\<forall>g. pixel_gob (pixel_scene g)) \<and> pixel (Dec 215) \<and> pixel (Dec 77)
   \<and> Map_Gob_Inner pixel_scene 1 (Dec 215) (Dec 77) = (3, Dec 15, Dec 27)
   \<and> hit_test pixel_scene 1000 1 (Dec 215, Dec 77) = (3, Dec 15, Dec 27)
   \<and> hit_test_accumulated pixel_scene 1000 1 (0, 0) (Dec 215, Dec 77) = (3, Dec 15, Dec 27)
   \<and> Map_Gob_Inner pixel_scene 1 (Dec 150) (Dec 77) = (1, Dec 150, Dec 77)
   \<and> Map_Gob_Inner pixel_scene 7 (Dec 5) (Dec 5) = (7, Dec 5, Dec 5)"
proof -
  have pix: "\<forall>g. pixel_gob (pixel_scene g)"
    by (simp add: pixel_scene_eval pixel_gob_def pixel_def)
  have p: "pixel (Dec 215)" "pixel (Dec 77)" "pixel (Dec 150)" "pixel (Dec 5)"
    by (simp_all add: pixel_def)
  have hit: "hit_test pixel_scene 1000 1 (Dec 215, Dec 77) = (3, Dec 15, Dec 27)"
    by (simp add: gob_eval pixel_scene_eval cong: option.case_cong_weak find_weak_cong)
  have miss: "hit_test pixel_scene 1000 1 (Dec 150, Dec 77) = (1, Dec 150, Dec 77)"
    by (simp add: gob_eval pixel_scene_eval cong: option.case_cong_weak find_weak_cong)
  have "hit_test sample_scene 1000 7 (5, 5) = (7, 5, 5)"
    by code_simp
  moreover have "(\<lambda>g. int_gob (pixel_scene g)) = sample_scene"
    by (simp add: pixel_scene_def int_gob_dec_gob)
  ultimately have cycle: "hit_test pixel_scene 1000 7 (Dec 5, Dec 5) = (7, Dec 5, Dec 5)"
    using hit_test_pixel [where ft = pixel_scene and n = 1000 and k = 0 and PX = 5
        and PY = 5 and gob = 7, OF pix [rule_format]]
    by (simp add: dec_of_int_def)
  note inst = Map_Gob_Inner_accumulated_hit_test
    [where st = pixel_scene and gob = 1 and xo = "Dec 215" and yo = "Dec 77"
       and ft = pixel_scene and fgob = 1 and fx = "Dec 215" and fy = "Dec 77"]
  from inst pix p have same: "Map_Gob_Inner pixel_scene 1 (Dec 215) (Dec 77) =
      hit_test pixel_scene 1000 1 (Dec 215, Dec 77)"
    by blast
  from inst have acc: "Map_Gob_Inner pixel_scene 1 (Dec 215) (Dec 77) =
      hit_test_accumulated pixel_scene 1000 1 (0, 0) (Dec 215, Dec 77)"
    by blast
  from Map_Gob_Inner_accumulated_hit_test
    [where st = pixel_scene and gob = 1 and xo = "Dec 150" and yo = "Dec 77"
       and ft = pixel_scene and fgob = 1 and fx = "Dec 150" and fy = "Dec 77"] pix p
  have same': "Map_Gob_Inner pixel_scene 1 (Dec 150) (Dec 77) =
      hit_test pixel_scene 1000 1 (Dec 150, Dec 77)"
    by blast
  from Map_Gob_Inner_accumulated_hit_test
    [where st = pixel_scene and gob = 7 and xo = "Dec 5" and yo = "Dec 5"
       and ft = pixel_scene and fgob = 7 and fx = "Dec 5" and fy = "Dec 5"] pix p
  have same'': "Map_Gob_Inner pixel_scene 7 (Dec 5) (Dec 5) =
      hit_test pixel_scene 1000 7 (Dec 5, Dec 5)"
    by blast
  show ?thesis
    using pix p hit miss cycle same acc same' same'' by simp
qed

text \<open>
  The hit test of the specification and the code part ways under rounding.  From node 12
  the point (16777216, 5) enters node 13 at x = 16777216; the residual point is (0, 5),
  outside the box of node 14, which starts at x = 1, so the hit test ends in node 13.  The
  code compares 16777216 with the \<open>REBD32\<close> sum 16777216 + 1, which is 16777216, and enters
  node 14.  From node 21 the same happens at small magnitudes: the point is the \<open>REBD32\<close>
  nearest to 2.1, and the sum of 2 and the \<open>REBD32\<close> nearest to 0.1 rounds to it, while the
  difference of the point and 2 is less than the \<open>REBD32\<close> nearest to 0.1.
\<close>

theorem Map_Gob_Inner_rounding_counterexample:
  "Map_Gob_Inner rounding_scene 12 (Dec 16777216) (Dec 5) = (14, Dec 0, Dec 5)
   \<and> hit_test rounding_scene 1000 12 (Dec 16777216, Dec 5) = (13, Dec 0, Dec 5)
   \<and> Map_Gob_Inner rounding_scene 21 (Dec (4404019 / 2097152)) (Dec 5) = (23, Dec 0, Dec 5)
   \<and> hit_test rounding_scene 1000 21 (Dec (4404019 / 2097152), Dec 5) =
       (22, Dec (209715 / 2097152), Dec 5)
   \<and> Map_Gob_Inner rounding_scene 12 (Dec 16777216) (Dec 5) \<noteq>
       hit_test rounding_scene 1000 12 (Dec 16777216, Dec 5)
   \<and> Map_Gob_Inner rounding_scene 21 (Dec (4404019 / 2097152)) (Dec 5) \<noteq>
       hit_test rounding_scene 1000 21 (Dec (4404019 / 2097152), Dec 5)"
proof -
  have code1: "Map_Gob_Inner rounding_scene 12 (Dec 16777216) (Dec 5) = (14, Dec 0, Dec 5)"
    by (simp add: gob_eval rounding_scene_def float_gob_def
        cong: option.case_cong_weak find_weak_cong)
  have spec1: "hit_test rounding_scene 1000 12 (Dec 16777216, Dec 5) = (13, Dec 0, Dec 5)"
    by (simp add: gob_eval rounding_scene_def float_gob_def
        cong: option.case_cong_weak find_weak_cong)
  have code2: "Map_Gob_Inner rounding_scene 21 (Dec (4404019 / 2097152)) (Dec 5) =
      (23, Dec 0, Dec 5)"
    by (simp add: gob_eval rounding_scene_def float_gob_def
        cong: option.case_cong_weak find_weak_cong)
  have spec2: "hit_test rounding_scene 1000 21 (Dec (4404019 / 2097152), Dec 5) =
      (22, Dec (209715 / 2097152), Dec 5)"
    by (simp add: gob_eval rounding_scene_def float_gob_def
        cong: option.case_cong_weak find_weak_cong)
  show ?thesis
    by (simp add: code1 spec1 code2 spec2)
qed



section \<open>Properties of the cryptography natives\<close>

text \<open>
  C9.  The default of checksum.  Without \<open>/method\<close>, \<open>/secure\<close>, \<open>/key\<close>, \<open>/tcp\<close> and
  \<open>/hash\<close> the result is the integer that \<open>Compute_CRC24\<close> gives for the data.
\<close>

theorem checksum_default_crc24:
  "ref_method refs = None \<and> \<not> ref_secure refs \<and> ref_key refs = None
     \<and> \<not> ref_tcp refs \<and> ref_hash refs = None \<longrightarrow>
   checksum lib refs data = Inr (Integer_Value (Compute_CRC24 lib data))"
  by (simp add: checksum_def)

theorem checksum_default_crc24_witness:
  "ref_method no_refs = None \<and> \<not> ref_secure no_refs \<and> ref_key no_refs = None
     \<and> \<not> ref_tcp no_refs \<and> ref_hash no_refs = None
   \<and> checksum sample_hash_lib no_refs [1, 2, 3] = Inr (Integer_Value 27)"
proof -
  have refs: "ref_method no_refs = None \<and> \<not> ref_secure no_refs \<and> ref_key no_refs = None
     \<and> \<not> ref_tcp no_refs \<and> ref_hash no_refs = None"
    by (simp add: no_refs_def)
  with checksum_default_crc24 [of no_refs sample_hash_lib "[1, 2, 3]"]
  have "checksum sample_hash_lib no_refs [1, 2, 3] =
          Inr (Integer_Value (Compute_CRC24 sample_hash_lib [1, 2, 3]))"
    by (rule mp)
  with refs show ?thesis
    by (simp add: sample_hash_lib_def)
qed

text \<open>
  C10.  The tolerance of aes-key for the initialisation vector.  The failure for the
  vector happens exactly for a binary of fewer than 16 bytes; a binary of 16 bytes or more
  gives what its first 16 bytes give, a blank gives what 16 zero bytes give; and with a
  key of 16 or 32 bytes the call fails only for such a short binary, the handle otherwise
  holding the context that \<open>AES_set_key\<close> makes from the key and the first 16 bytes.
\<close>

theorem aes_key_iv_tolerance:
  "(aes_key lib key (IV_Binary b) decrypt = Inl Error_IV_Too_Short \<longleftrightarrow> length b < 16)
   \<and> aes_key lib key IV_Blank decrypt \<noteq> Inl Error_IV_Too_Short
   \<and> (16 \<le> length b \<longrightarrow>
        aes_key lib key (IV_Binary b) decrypt = aes_key lib key (IV_Binary (take 16 b)) decrypt)
   \<and> aes_key lib key IV_Blank decrypt = aes_key lib key (IV_Binary (replicate 16 0)) decrypt
   \<and> (length key = 16 \<or> length key = 32 \<longrightarrow>
        ((\<exists>e. aes_key lib key iv decrypt = Inl e) \<longleftrightarrow>
         (\<exists>short. iv = IV_Binary short \<and> length short < 16)))
   \<and> (length key = 16 \<and> 16 \<le> length b \<longrightarrow>
        aes_key lib key (IV_Binary b) decrypt =
          Inr \<lparr>VAL_HANDLE_CLEANER = cleanup_aes_ctx,
               VAL_HANDLE_POINTER =
                 (if decrypt then AES_convert_key lib (AES_set_key lib key (take 16 b) AES_MODE_128)
                  else AES_set_key lib key (take 16 b) AES_MODE_128)\<rparr>)"
proof -
  have short: "aes_key lib key (IV_Binary b) decrypt = Inl Error_IV_Too_Short
                 \<longleftrightarrow> length b < 16"
    by (simp add: aes_key_def AES_IV_SIZE_def Let_def)
  have blank: "aes_key lib key IV_Blank decrypt \<noteq> Inl Error_IV_Too_Short"
    by (simp add: aes_key_def AES_IV_SIZE_def Let_def)
  have first16: "16 \<le> length b \<longrightarrow>
        aes_key lib key (IV_Binary b) decrypt = aes_key lib key (IV_Binary (take 16 b)) decrypt"
    by (simp add: aes_key_def AES_IV_SIZE_def Let_def)
  have zeros: "aes_key lib key IV_Blank decrypt =
               aes_key lib key (IV_Binary (replicate 16 0)) decrypt"
    by (simp add: aes_key_def AES_IV_SIZE_def Let_def)
  have only: "length key = 16 \<or> length key = 32 \<longrightarrow>
        ((\<exists>e. aes_key lib key iv decrypt = Inl e) \<longleftrightarrow>
         (\<exists>short. iv = IV_Binary short \<and> length short < 16))"
    by (cases iv) (auto simp: aes_key_def AES_IV_SIZE_def Let_def)
  have made: "length key = 16 \<and> 16 \<le> length b \<longrightarrow>
        aes_key lib key (IV_Binary b) decrypt =
          Inr \<lparr>VAL_HANDLE_CLEANER = cleanup_aes_ctx,
               VAL_HANDLE_POINTER =
                 (if decrypt then AES_convert_key lib (AES_set_key lib key (take 16 b) AES_MODE_128)
                  else AES_set_key lib key (take 16 b) AES_MODE_128)\<rparr>"
    by (simp add: aes_key_def AES_IV_SIZE_def Let_def)
  from short blank first16 zeros only made show ?thesis
    by (intro conjI)
qed

lemma sint_len: "n < 2 ^ 31 \<Longrightarrow> sint (word_of_nat n :: 32 word) = int n"
  by (simp add: signed_of_nat signed_take_bit_int_eq_self)

lemma unat_len: "n < 2 ^ 31 \<Longrightarrow> unat (word_of_nat n :: 32 word) = n"
  by (simp add: unat_of_nat)

lemma len_zero: "n < 2 ^ 31 \<Longrightarrow> (word_of_nat n :: 32 word) = 0 \<longleftrightarrow> n = 0"
  by (auto simp: word_of_nat_eq_0_iff dest: dvd_imp_le)

lemma word_of_sint: "sint (w :: 32 word) = k \<Longrightarrow> w = word_of_int k"
  by auto

lemma pad_len_word:
  assumes "n \<noteq> 0" and "n < 2 ^ 31 - 16"
  shows "push_bit 4 (signed_drop_bit 4 ((word_of_nat n :: 32 word) - 1)) + 16 =
         word_of_nat (16 * ((n + 15) div 16))"
proof -
  from assms(1) have a: "(word_of_nat n :: 32 word) - 1 = word_of_nat (n - 1)"
    by (simp add: of_nat_diff)
  from assms(2) have b: "sint (word_of_nat (n - 1) :: 32 word) = int (n - 1)"
    by (simp add: sint_len)
  have "sint (signed_drop_bit 4 (word_of_nat (n - 1) :: 32 word)) = drop_bit 4 (int (n - 1))"
    by (simp only: sint_signed_drop_bit_eq b)
  then have c: "signed_drop_bit 4 (word_of_nat (n - 1) :: 32 word) =
                word_of_int (drop_bit 4 (int (n - 1)))"
    by (rule word_of_sint)
  have d: "(int n + 15) div 16 = (int n - 1) div 16 + 1"
    using div_add_self2 [of 16 "int n - 1"] by (simp add: algebra_simps)
  from assms(1) have e: "int (n - Suc 0) = int n - 1"
    by (simp add: of_nat_diff)
  have f: "push_bit 4 (word_of_int (drop_bit 4 (int (n - 1))) :: 32 word) + 16 =
        word_of_int (push_bit 4 (drop_bit 4 (int (n - 1))) + 16)"
    by (simp add: push_bit_eq_mult)
  have g: "push_bit 4 (drop_bit 4 (int (n - 1))) + 16 = int (16 * ((n + 15) div 16))"
    using d by (simp add: push_bit_eq_mult drop_bit_eq_div e zdiv_int)
  show ?thesis
    by (simp only: a c f g of_int_of_nat_eq)
qed

lemma pad_len_ge: "(n :: nat) \<le> 16 * ((n + 15) div 16)"
  by presburger

lemma pad_len_gt: "(n :: nat) < 16 * ((n + 15) div 16) \<longleftrightarrow> \<not> 16 dvd n"
  by presburger

lemma length_store_out: "length (store_out data_out written) = length data_out"
  by (simp add: store_out_def)

text \<open>
  C4.  The shape of the result of aes-stream, for a handle made by aes-key.  Data of
  length zero gives the null result.  Data of a length from 1 up to where the \<open>REBINT\<close>
  arithmetic of the padding stays in range gives a binary whose length is the length of
  the data rounded up to the next multiple of 16: the buffer that the CBC routine of the
  handle's mode, encryption or decryption, has written for the data followed by zero bytes
  up to that boundary.  The temporary padded copy is made exactly when the length is not
  already a multiple of 16.
\<close>

theorem aes_stream_shape:
  "VAL_HANDLE_CLEANER ctx = cleanup_aes_ctx \<longrightarrow>
     (data = [] \<longrightarrow>
        aes_stream lib ctx data =
          Inr \<lparr>stream_binary = None, stream_pad_data = None,
               stream_ctx = VAL_HANDLE_POINTER ctx\<rparr>)
   \<and> (data \<noteq> [] \<and> length data < 2 ^ 31 - 16 \<longrightarrow>
        (let pad_len = 16 * ((length data + 15) div 16);
             padded = data @ replicate (pad_len - length data) 0;
             cbc = (if key_mode lib (VAL_HANDLE_POINTER ctx) = AES_MODE_DECRYPT
                    then AES_cbc_decrypt lib else AES_cbc_encrypt lib)
         in \<exists>r out. aes_stream lib ctx data = Inr r
              \<and> stream_binary r = Some out
              \<and> length out = pad_len
              \<and> out = store_out (replicate pad_len 0) (snd (cbc (VAL_HANDLE_POINTER ctx) padded))
              \<and> stream_pad_data r = (if 16 dvd length data then None else Some padded)))"
proof (intro impI conjI)
  assume "VAL_HANDLE_CLEANER ctx = cleanup_aes_ctx" and "data = []"
  then show "aes_stream lib ctx data =
          Inr \<lparr>stream_binary = None, stream_pad_data = None,
               stream_ctx = VAL_HANDLE_POINTER ctx\<rparr>"
    by (simp add: aes_stream_def)
next
  assume aes: "VAL_HANDLE_CLEANER ctx = cleanup_aes_ctx"
    and data: "data \<noteq> [] \<and> length data < 2 ^ 31 - 16"
  define n where "n = length data"
  define P where "P = 16 * ((n + 15) div 16)"
  from data have n0: "n \<noteq> 0" and n31: "n < 2 ^ 31 - 16"
    by (simp_all add: n_def)
  have ge: "n \<le> P" and gt: "n < P \<longleftrightarrow> \<not> 16 dvd n"
    using pad_len_ge [of n] pad_len_gt [of n] by (simp_all add: P_def)
  have "P \<le> n + 15"
    by (simp add: P_def)
  with n31 have P31: "P < 2 ^ 31"
    by simp
  from n31 have n31': "n < 2 ^ 31"
    by simp
  have len0: "(word_of_nat n :: 32 word) \<noteq> 0"
    using n0 n31' by (simp add: len_zero)
  have pad: "push_bit 4 (signed_drop_bit 4 ((word_of_nat n :: 32 word) - 1)) + AES_BLOCKSIZE =
             word_of_nat P"
    using pad_len_word [OF n0 n31] by (simp add: P_def AES_BLOCKSIZE_def)
  have size: "unat (word_of_nat P :: 32 word) = P"
    using P31 by (rule unat_len)
  have less: "(word_of_nat n :: 32 word) <s word_of_nat P \<longleftrightarrow> n < P"
    using n31' P31 by (simp add: word_sless_alt sint_len)
  show "let pad_len = 16 * ((length data + 15) div 16);
             padded = data @ replicate (pad_len - length data) 0;
             cbc = (if key_mode lib (VAL_HANDLE_POINTER ctx) = AES_MODE_DECRYPT
                    then AES_cbc_decrypt lib else AES_cbc_encrypt lib)
         in \<exists>r out. aes_stream lib ctx data = Inr r
              \<and> stream_binary r = Some out
              \<and> length out = pad_len
              \<and> out = store_out (replicate pad_len 0) (snd (cbc (VAL_HANDLE_POINTER ctx) padded))
              \<and> stream_pad_data r = (if 16 dvd length data then None else Some padded)"
  proof (cases "16 dvd n")
    case True
    with gt ge have eq: "P = n" by simp
    with True aes len0 pad size less show ?thesis
      by (simp add: aes_stream_def Let_def n_def [symmetric] P_def [symmetric]
          length_store_out split: prod.splits)
  next
    case False
    with gt have lt: "n < P" by simp
    with False aes len0 pad size less show ?thesis
      by (simp add: aes_stream_def Let_def n_def [symmetric] P_def [symmetric]
          length_store_out split: prod.splits)
  qed
qed

theorem aes_stream_shape_witness:
  "VAL_HANDLE_CLEANER sample_handle = cleanup_aes_ctx
   \<and> aes_stream sample_aes_lib sample_handle [] =
       Inr \<lparr>stream_binary = None, stream_pad_data = None,
            stream_ctx = (AES_MODE_ENCRYPT, replicate 16 1)\<rparr>
   \<and> replicate 3 (5 :: 8 word) \<noteq> [] \<and> length (replicate 3 (5 :: 8 word)) < 2 ^ 31 - 16
   \<and> (\<exists>r out. aes_stream sample_aes_lib sample_handle (replicate 3 5) = Inr r
         \<and> stream_binary r = Some out \<and> length out = 16
         \<and> stream_pad_data r = Some (replicate 3 5 @ replicate 13 0))"
proof -
  have aes: "VAL_HANDLE_CLEANER sample_handle = cleanup_aes_ctx"
    by (simp add: sample_handle_def)
  have ptr: "VAL_HANDLE_POINTER sample_handle = (AES_MODE_ENCRYPT, replicate 16 1)"
    by (simp add: sample_handle_def)
  have some: "replicate 3 (5 :: 8 word) \<noteq> [] \<and> length (replicate 3 (5 :: 8 word)) < 2 ^ 31 - 16"
    by simp
  from aes_stream_shape [of sample_handle "[]" sample_aes_lib] aes
  have "[] = ([] :: bytes) \<longrightarrow> aes_stream sample_aes_lib sample_handle [] =
       Inr \<lparr>stream_binary = None, stream_pad_data = None,
            stream_ctx = VAL_HANDLE_POINTER sample_handle\<rparr>"
    by blast
  then have empty: "aes_stream sample_aes_lib sample_handle [] =
       Inr \<lparr>stream_binary = None, stream_pad_data = None,
            stream_ctx = (AES_MODE_ENCRYPT, replicate 16 1)\<rparr>"
    by (simp add: ptr)
  from aes_stream_shape [of sample_handle "replicate 3 5" sample_aes_lib] aes some
  obtain r out where r: "aes_stream sample_aes_lib sample_handle (replicate 3 5) = Inr r"
    "stream_binary r = Some out"
    "length out = 16 * ((length (replicate 3 (5 :: 8 word)) + 15) div 16)"
    "stream_pad_data r =
       (if 16 dvd length (replicate 3 (5 :: 8 word)) then None
        else Some (replicate 3 5 @
               replicate (16 * ((length (replicate 3 (5 :: 8 word)) + 15) div 16)
                          - length (replicate 3 (5 :: 8 word))) 0))"
    unfolding Let_def by blast
  from r(3,4) have "length out = 16"
    "stream_pad_data r = Some (replicate 3 5 @ replicate 13 0)"
    by simp_all
  with r(1,2) have "\<exists>r out. aes_stream sample_aes_lib sample_handle (replicate 3 5) = Inr r
         \<and> stream_binary r = Some out \<and> length out = 16
         \<and> stream_pad_data r = Some (replicate 3 5 @ replicate 13 0)"
    by blast
  with aes empty some show ?thesis
    by blast
qed

theorem aes_key_iv_tolerance_witness:
  "aes_key sample_aes_lib sample_key (IV_Binary (replicate 15 1)) False = Inl Error_IV_Too_Short
   \<and> length sample_key = 16 \<and> 16 \<le> length (replicate 20 (1 :: 8 word))
   \<and> aes_key sample_aes_lib sample_key (IV_Binary (replicate 20 1)) False =
       Inr \<lparr>VAL_HANDLE_CLEANER = cleanup_aes_ctx,
            VAL_HANDLE_POINTER = (AES_MODE_ENCRYPT, replicate 16 1)\<rparr>
   \<and> aes_key sample_aes_lib sample_key IV_Blank True =
       Inr \<lparr>VAL_HANDLE_CLEANER = cleanup_aes_ctx,
            VAL_HANDLE_POINTER = (AES_MODE_DECRYPT, replicate 16 0)\<rparr>"
proof -
  have key: "length sample_key = 16"
    by (simp add: sample_key_def)
  have long: "16 \<le> length (replicate 20 (1 :: 8 word))"
    and long0: "16 \<le> length (replicate 16 (0 :: 8 word))"
    and short15: "length (replicate 15 (1 :: 8 word)) < 16"
    by simp_all
  have set_key: "AES_set_key sample_aes_lib k v m = (AES_MODE_ENCRYPT, v)"
    and convert: "AES_convert_key sample_aes_lib c = (AES_MODE_DECRYPT, snd c)" for k v m c
    by (simp_all add: sample_aes_lib_def)
  note at15 = aes_key_iv_tolerance
    [where lib = sample_aes_lib and key = sample_key and b = "replicate 15 1"
       and decrypt = False and iv = IV_Blank]
  note at20 = aes_key_iv_tolerance
    [where lib = sample_aes_lib and key = sample_key and b = "replicate 20 1"
       and decrypt = False and iv = IV_Blank]
  note at0 = aes_key_iv_tolerance
    [where lib = sample_aes_lib and key = sample_key and b = "replicate 16 0"
       and decrypt = True and iv = IV_Blank]
  from at15 short15
  have short: "aes_key sample_aes_lib sample_key (IV_Binary (replicate 15 1)) False =
                 Inl Error_IV_Too_Short"
    by blast
  from at20 key long
  have "aes_key sample_aes_lib sample_key (IV_Binary (replicate 20 1)) False =
       Inr \<lparr>VAL_HANDLE_CLEANER = cleanup_aes_ctx,
            VAL_HANDLE_POINTER =
              (if False
               then AES_convert_key sample_aes_lib
                      (AES_set_key sample_aes_lib sample_key (take 16 (replicate 20 1))
                         AES_MODE_128)
               else AES_set_key sample_aes_lib sample_key (take 16 (replicate 20 1))
                      AES_MODE_128)\<rparr>"
    by blast
  then have first16: "aes_key sample_aes_lib sample_key (IV_Binary (replicate 20 1)) False =
       Inr \<lparr>VAL_HANDLE_CLEANER = cleanup_aes_ctx,
            VAL_HANDLE_POINTER = (AES_MODE_ENCRYPT, replicate 16 1)\<rparr>"
    by (simp add: set_key)
  have same: "aes_key sample_aes_lib sample_key IV_Blank True =
              aes_key sample_aes_lib sample_key (IV_Binary (replicate 16 0)) True"
    by (rule at0 [THEN conjunct2, THEN conjunct2, THEN conjunct2, THEN conjunct1])
  from at0 key long0
  have "aes_key sample_aes_lib sample_key (IV_Binary (replicate 16 0)) True =
       Inr \<lparr>VAL_HANDLE_CLEANER = cleanup_aes_ctx,
            VAL_HANDLE_POINTER =
              (if True
               then AES_convert_key sample_aes_lib
                      (AES_set_key sample_aes_lib sample_key (take 16 (replicate 16 0))
                         AES_MODE_128)
               else AES_set_key sample_aes_lib sample_key (take 16 (replicate 16 0))
                      AES_MODE_128)\<rparr>"
    by blast
  with same
  have "aes_key sample_aes_lib sample_key IV_Blank True =
       Inr \<lparr>VAL_HANDLE_CLEANER = cleanup_aes_ctx,
            VAL_HANDLE_POINTER =
              (if True
               then AES_convert_key sample_aes_lib
                      (AES_set_key sample_aes_lib sample_key (take 16 (replicate 16 0))
                         AES_MODE_128)
               else AES_set_key sample_aes_lib sample_key (take 16 (replicate 16 0))
                      AES_MODE_128)\<rparr>"
    by (rule trans)
  then have blank: "aes_key sample_aes_lib sample_key IV_Blank True =
       Inr \<lparr>VAL_HANDLE_CLEANER = cleanup_aes_ctx,
            VAL_HANDLE_POINTER = (AES_MODE_DECRYPT, replicate 16 0)\<rparr>"
    by (simp add: set_key convert)
  from short key long first16 blank show ?thesis
    by (intro conjI)
qed

section \<open>Properties of PNG identification\<close>

text \<open>
  C8.  identify-png? is total.  Whatever the codec's header inspection reports for the
  binary, the native returns a logic value and never fails: false exactly when the
  inspection reports an error, true otherwise.
\<close>

theorem identify_png_q_total:
  "(\<exists>b. identify_png_q lodepng_inspect data = Inr b)
   \<and> (\<forall>e. identify_png_q lodepng_inspect data \<noteq> Inl e)
   \<and> (identify_png_q lodepng_inspect data = Inr False \<longleftrightarrow> fst (lodepng_inspect data) \<noteq> 0)
   \<and> (identify_png_q lodepng_inspect data = Inr True \<longleftrightarrow> fst (lodepng_inspect data) = 0)"
  by (auto simp: identify_png_q_def split: prod.splits)

theorem identify_png_q_total_witness:
  "fst (sample_inspect []) \<noteq> 0
   \<and> identify_png_q sample_inspect [] = Inr False
   \<and> fst (sample_inspect (replicate 40 7)) \<noteq> 0
   \<and> identify_png_q sample_inspect (replicate 40 7) = Inr False
   \<and> fst (sample_inspect (png_signature @ replicate 25 0)) = 0
   \<and> identify_png_q sample_inspect (png_signature @ replicate 25 0) = Inr True"
proof -
  have e1: "fst (sample_inspect []) \<noteq> 0"
    by code_simp
  have e2: "fst (sample_inspect (replicate 40 7)) \<noteq> 0"
    by code_simp
  have e3: "fst (sample_inspect (png_signature @ replicate 25 0)) = 0"
    by code_simp
  from identify_png_q_total [of sample_inspect "[]"] e1
  have r1: "identify_png_q sample_inspect [] = Inr False"
    by blast
  from identify_png_q_total [of sample_inspect "replicate 40 7"] e2
  have r2: "identify_png_q sample_inspect (replicate 40 7) = Inr False"
    by blast
  from identify_png_q_total [of sample_inspect "png_signature @ replicate 25 0"] e3
  have r3: "identify_png_q sample_inspect (png_signature @ replicate 25 0) = Inr True"
    by blast
  from e1 r1 e2 r2 e3 r3 show ?thesis
    by (intro conjI)
qed

end
